theory Spec2Isabelle
  imports Main "HOL-Library.Word" "HOL-Library.Sublist"
begin

section \<open>Data model (include/simi/types.hpp)\<close>

text \<open>
  \<^verbatim>\<open>enum class Role { System, User, Assistant, Tool }\<close> has underlying type \<^verbatim>\<open>int\<close>, and
  \<^verbatim>\<open>Context::load\<close> casts an arbitrary \<^verbatim>\<open>int\<close> read from a file to \<^verbatim>\<open>Role\<close>. A role is
  therefore a 32-bit value with four named constants; \<open>sint\<close> is the \<^verbatim>\<open>static_cast<int>\<close>
  that \<^verbatim>\<open>Context::save\<close> prints.
\<close>

type_synonym Role = "32 word"

definition System :: Role where "System = 0"
definition User :: Role where "User = 1"
definition Assistant :: Role where "Assistant = 2"
definition Tool :: Role where "Tool = 3"

record Message =
  role :: Role
  content :: string
  tool_name :: "string option"
  tool_call_id :: "string option"
  images :: "string list"

definition system_msg :: "string \<Rightarrow> Message" where
  "system_msg c = \<lparr>role = System, content = c, tool_name = None, tool_call_id = None, images = []\<rparr>"

definition user_msg :: "string \<Rightarrow> string list \<Rightarrow> Message" where
  "user_msg c imgs = \<lparr>role = User, content = c, tool_name = None, tool_call_id = None, images = imgs\<rparr>"

definition assistant_msg :: "string \<Rightarrow> Message" where
  "assistant_msg c =
     \<lparr>role = Assistant, content = c, tool_name = None, tool_call_id = None, images = []\<rparr>"

definition tool_result_msg :: "string \<Rightarrow> string \<Rightarrow> string \<Rightarrow> Message" where
  "tool_result_msg nm cid res =
     \<lparr>role = Tool, content = res, tool_name = Some nm, tool_call_id = Some cid, images = []\<rparr>"

record ToolParameter =
  param_name :: string
  param_type :: string
  param_description :: string
  required :: bool
  default_value :: "string option"

record ToolSchema =
  schema_name :: string
  description :: string
  parameters :: "ToolParameter list"

text \<open>\<^verbatim>\<open>ToolCall::arguments\<close> is a \<^verbatim>\<open>std::map<std::string, std::string>\<close>: a finite map with
  unique keys.\<close>

record ToolCall =
  id_call :: string
  name :: string
  arguments :: "string \<rightharpoonup> string"

record ToolResult =
  call_id :: string
  success :: bool
  tool_output :: string
  error :: "string option"

datatype AgentState = Idle | Thinking | CallingTool | WaitingForUser | Error | Done

text \<open>
  How a call can end without returning: with an exception derived from \<^verbatim>\<open>std::exception\<close>
  (kept with its \<^verbatim>\<open>what()\<close> text), with an exception of any other type (\<^verbatim>\<open>throw 42\<close>,
  which no \<^verbatim>\<open>catch (const std::exception&)\<close> handles), or with the stack exhausted by the
  recursion of the regex engine, which ends the process.
\<close>

datatype fault = StdException string | OtherException | StackExhausted

text \<open>
  What lies outside the agent and is shared with it: the atomic flag \<^verbatim>\<open>stop_requested\<close>,
  which \<^verbatim>\<open>Agent::stop\<close> sets from another thread or from a callback while a blocking call
  runs, the number of levels of the regex engine's recursion that the stack of the process
  holds, and the rest of the environment (file system, model backend state), of an
  arbitrary type. Every blocking call takes the world and returns the new one.
\<close>

record 'x World =
  stop_requested :: bool
  stack_limit :: nat
  outside :: 'x

section \<open>Tools and the registry (include/simi/tools.hpp, src/tools/tool_registry.cpp)\<close>

text \<open>
  A \<^verbatim>\<open>Tool\<close> is an object with three virtual methods, and the registry accepts any subclass
  (\<^verbatim>\<open>AgentBuilder::with_tool\<close>, \<^verbatim>\<open>Agent::tools().register_tool\<close>). \<^verbatim>\<open>execute\<close> may throw (the
  file tools call \<^verbatim>\<open>std::stoi\<close> and \<^verbatim>\<open>std::filesystem\<close>, \<^verbatim>\<open>AskUserTool\<close> runs a callback of
  the host), and so may an override of \<^verbatim>\<open>is_available\<close>: \<open>Inl\<close> is the exception.
\<close>

record 'x Tool =
  get_schema :: ToolSchema
  execute :: "(string \<rightharpoonup> string) \<Rightarrow> 'x World \<Rightarrow> (fault + ToolResult) \<times> 'x World"
  is_available :: "'x World \<Rightarrow> fault + bool"

definition tool_name_of :: "'x Tool \<Rightarrow> string" where
  "tool_name_of t = schema_name (get_schema t)"

text \<open>\<^verbatim>\<open>std::map<std::string, std::unique_ptr<Tool>> tools_\<close>: an association list with
  unique keys; \<^verbatim>\<open>tools_[name] = std::move(tool)\<close> overwrites a present key in place.\<close>

type_synonym 'x ToolRegistry = "(string \<times> 'x Tool) list"

fun assign_tool :: "string \<Rightarrow> 'x Tool \<Rightarrow> 'x ToolRegistry \<Rightarrow> 'x ToolRegistry" where
  "assign_tool n t [] = [(n, t)]"
| "assign_tool n t ((k, v) # r) = (if k = n then (n, t) # r else (k, v) # assign_tool n t r)"

definition register_tool :: "'x Tool option \<Rightarrow> 'x ToolRegistry \<Rightarrow> 'x ToolRegistry" where
  "register_tool tool tools =
     (case tool of None \<Rightarrow> tools | Some t \<Rightarrow> assign_tool (tool_name_of t) t tools)"

definition get_tool :: "'x ToolRegistry \<Rightarrow> string \<Rightarrow> 'x Tool option" where
  "get_tool tools n = map_of tools n"

text \<open>
  \<^verbatim>\<open>ToolRegistry::execute\<close>. The first two returns are aggregate initialisations
  \<^verbatim>\<open>{call.id, false, "", message}\<close>. \<^verbatim>\<open>tool->is_available()\<close> is called before the \<^verbatim>\<open>try\<close>
  block, so what it throws leaves the function. The \<^verbatim>\<open>try\<close> block covers \<^verbatim>\<open>tool->execute\<close>
  and the assignment of \<^verbatim>\<open>call_id\<close>; its handler catches \<^verbatim>\<open>const std::exception&\<close> and
  nothing else.
\<close>

definition registry_execute ::
  "'x ToolRegistry \<Rightarrow> ToolCall \<Rightarrow> 'x World \<Rightarrow> (fault + ToolResult) \<times> 'x World" where
  "registry_execute tools call w =
     (case get_tool tools (name call) of
        None \<Rightarrow>
          (Inr \<lparr>call_id = id_call call, success = False, tool_output = [],
                error = Some (''Unknown tool: '' @ name call)\<rparr>, w)
      | Some tool \<Rightarrow>
          (case is_available tool w of
             Inl e \<Rightarrow> (Inl e, w)
           | Inr False \<Rightarrow>
               (Inr \<lparr>call_id = id_call call, success = False, tool_output = [],
                     error = Some (''Tool not available: '' @ name call)\<rparr>, w)
           | Inr True \<Rightarrow>
               (case execute tool (arguments call) w of
                  (Inr result, w') \<Rightarrow> (Inr (result\<lparr>call_id := id_call call\<rparr>), w')
                | (Inl (StdException msg), w') \<Rightarrow>
                    (Inr \<lparr>call_id = id_call call, success = False, tool_output = [],
                          error = Some (''Tool execution failed: '' @ msg)\<rparr>, w')
                | (Inl e, w') \<Rightarrow> (Inl e, w'))))"

section \<open>Dispatch\<close>

text \<open>Tools for the examples: one that throws \<^verbatim>\<open>std::runtime_error("boom")\<close>, one that
  throws an \<^verbatim>\<open>int\<close>, one whose availability check throws, and one that succeeds and sets a
  call id of its own.\<close>

definition throwing_tool :: "unit Tool" where
  "throwing_tool =
     \<lparr>get_schema = \<lparr>schema_name = ''thrower'', description = [], parameters = []\<rparr>,
      execute = (\<lambda>args w. (Inl (StdException ''boom''), w)),
      is_available = (\<lambda>w. Inr True)\<rparr>"

definition int_throwing_tool :: "unit Tool" where
  "int_throwing_tool =
     \<lparr>get_schema = \<lparr>schema_name = ''thrower'', description = [], parameters = []\<rparr>,
      execute = (\<lambda>args w. (Inl OtherException, w)),
      is_available = (\<lambda>w. Inr True)\<rparr>"

definition unchecked_tool :: "unit Tool" where
  "unchecked_tool =
     \<lparr>get_schema = \<lparr>schema_name = ''thrower'', description = [], parameters = []\<rparr>,
      execute = (\<lambda>args w. (Inl (StdException ''boom''), w)),
      is_available = (\<lambda>w. Inl (StdException ''no display''))\<rparr>"

definition echo_tool :: "unit Tool" where
  "echo_tool =
     \<lparr>get_schema = \<lparr>schema_name = ''echo'', description = [], parameters = []\<rparr>,
      execute = (\<lambda>args w.
        (Inr \<lparr>call_id = ''mine'', success = True,
              tool_output = (case args ''text'' of None \<Rightarrow> [] | Some v \<Rightarrow> v), error = None\<rparr>, w)),
      is_available = (\<lambda>w. Inr True)\<rparr>"

definition idle_world :: "unit World" where
  "idle_world = \<lparr>stop_requested = False, stack_limit = 30000, outside = ()\<rparr>"

definition thrower_call :: ToolCall where
  "thrower_call = \<lparr>id_call = ''call_0'', name = ''thrower'', arguments = Map.empty\<rparr>"

text \<open>
  C3, as stated, fails on two points. The error of a tool that throws a \<^verbatim>\<open>std::exception\<close>
  is not the exception's message but that message behind the fixed prefix
  \<^verbatim>\<open>"Tool execution failed: "\<close>. And dispatch does pass exceptions on to its caller: one
  thrown by \<^verbatim>\<open>execute\<close> that is not a \<^verbatim>\<open>std::exception\<close>, and any thrown by \<^verbatim>\<open>is_available\<close>.
\<close>

theorem C3_fault_message_counterexample:
  "registry_execute (register_tool (Some throwing_tool) []) thrower_call idle_world
     = (Inr \<lparr>call_id = ''call_0'', success = False, tool_output = [],
              error = Some ''Tool execution failed: boom''\<rparr>, idle_world)
   \<and> Some ''Tool execution failed: boom'' \<noteq> Some ''boom''
   \<and> registry_execute (register_tool (Some int_throwing_tool) []) thrower_call idle_world
     = (Inl OtherException, idle_world)
   \<and> registry_execute (register_tool (Some unchecked_tool) []) thrower_call idle_world
     = (Inl (StdException ''no display''), idle_world)"
  by (simp add: registry_execute_def register_tool_def get_tool_def throwing_tool_def
      int_throwing_tool_def unchecked_tool_def tool_name_of_def thrower_call_def)

text \<open>
  C3 (amended): for every registry, request and world, whenever dispatch returns a result
  its \<open>call_id\<close> is the request's id. An unregistered name gives \<open>success = False\<close> and the
  error \<^verbatim>\<open>"Unknown tool: <name>"\<close>; a registered tool whose availability check returns false
  gives \<open>success = False\<close> and \<^verbatim>\<open>"Tool not available: <name>"\<close>; a \<^verbatim>\<open>std::exception\<close> thrown by
  the tool's \<open>execute\<close> gives \<open>success = False\<close> and the error \<^verbatim>\<open>"Tool execution failed: "\<close>
  followed by the exception's message; a result returned by the tool is passed on with only
  its \<open>call_id\<close> overwritten. Dispatch ends with an exception in exactly two cases: the
  availability check throws, or \<open>execute\<close> throws something that is not a
  \<^verbatim>\<open>std::exception\<close>; the exception is then the one thrown.
\<close>

theorem C3_dispatch:
  "(\<forall>r w'. registry_execute tools call w = (Inr r, w') \<longrightarrow> call_id r = id_call call)
   \<and> (get_tool tools (name call) = None \<longrightarrow>
        registry_execute tools call w
          = (Inr \<lparr>call_id = id_call call, success = False, tool_output = [],
                   error = Some (''Unknown tool: '' @ name call)\<rparr>, w))
   \<and> (\<forall>tool. get_tool tools (name call) = Some tool \<and> is_available tool w = Inr False \<longrightarrow>
        registry_execute tools call w
          = (Inr \<lparr>call_id = id_call call, success = False, tool_output = [],
                   error = Some (''Tool not available: '' @ name call)\<rparr>, w))
   \<and> (\<forall>tool msg w'. get_tool tools (name call) = Some tool \<and> is_available tool w = Inr True
          \<and> execute tool (arguments call) w = (Inl (StdException msg), w') \<longrightarrow>
        registry_execute tools call w
          = (Inr \<lparr>call_id = id_call call, success = False, tool_output = [],
                   error = Some (''Tool execution failed: '' @ msg)\<rparr>, w'))
   \<and> (\<forall>tool res w'. get_tool tools (name call) = Some tool \<and> is_available tool w = Inr True
          \<and> execute tool (arguments call) w = (Inr res, w') \<longrightarrow>
        registry_execute tools call w = (Inr (res\<lparr>call_id := id_call call\<rparr>), w'))
   \<and> (\<forall>e w'. registry_execute tools call w = (Inl e, w') \<longleftrightarrow>
        (\<exists>tool. get_tool tools (name call) = Some tool
           \<and> (is_available tool w = Inl e \<and> w' = w
               \<or> is_available tool w = Inr True
                  \<and> execute tool (arguments call) w = (Inl e, w')
                  \<and> (\<forall>msg. e \<noteq> StdException msg))))"
  by (auto simp: registry_execute_def split: option.splits sum.splits prod.splits fault.splits
      bool.splits)

theorem C3_dispatch_witness:
  "get_tool (register_tool (Some echo_tool) (register_tool (Some throwing_tool) [])) ''thrower''
     = Some throwing_tool
   \<and> is_available throwing_tool idle_world = Inr True
   \<and> execute throwing_tool Map.empty idle_world = (Inl (StdException ''boom''), idle_world)
   \<and> registry_execute (register_tool (Some echo_tool) (register_tool (Some throwing_tool) []))
       \<lparr>id_call = ''call_0'', name = ''thrower'', arguments = Map.empty\<rparr> idle_world
     = (Inr \<lparr>call_id = ''call_0'', success = False, tool_output = [],
              error = Some ''Tool execution failed: boom''\<rparr>, idle_world)
   \<and> get_tool (register_tool (Some echo_tool) (register_tool (Some throwing_tool) [])) ''echo''
     = Some echo_tool
   \<and> registry_execute (register_tool (Some echo_tool) (register_tool (Some throwing_tool) []))
       \<lparr>id_call = ''call_1'', name = ''echo'', arguments = [''text'' \<mapsto> ''hi'']\<rparr> idle_world
     = (Inr \<lparr>call_id = ''call_1'', success = True, tool_output = ''hi'', error = None\<rparr>,
        idle_world)
   \<and> get_tool (register_tool (Some echo_tool) (register_tool (Some throwing_tool) [])) ''nope''
     = None
   \<and> registry_execute (register_tool (Some echo_tool) (register_tool (Some throwing_tool) []))
       \<lparr>id_call = ''call_2'', name = ''nope'', arguments = Map.empty\<rparr> idle_world
     = (Inr \<lparr>call_id = ''call_2'', success = False, tool_output = [],
              error = Some ''Unknown tool: nope''\<rparr>, idle_world)
   \<and> get_tool (register_tool (Some int_throwing_tool) []) ''thrower'' = Some int_throwing_tool
   \<and> execute int_throwing_tool Map.empty idle_world = (Inl OtherException, idle_world)
   \<and> registry_execute (register_tool (Some int_throwing_tool) []) thrower_call idle_world
     = (Inl OtherException, idle_world)"
proof -
  let ?reg = "register_tool (Some echo_tool) (register_tool (Some throwing_tool) [])"
  have g: "get_tool ?reg ''thrower'' = Some throwing_tool" "get_tool ?reg ''echo'' = Some echo_tool"
    "get_tool ?reg ''nope'' = None"
    "get_tool (register_tool (Some int_throwing_tool) []) ''thrower'' = Some int_throwing_tool"
    by (simp_all add: register_tool_def get_tool_def throwing_tool_def echo_tool_def
        int_throwing_tool_def tool_name_of_def)
  have a: "is_available throwing_tool idle_world = Inr True"
    "is_available echo_tool idle_world = Inr True"
    "is_available int_throwing_tool idle_world = Inr True"
    by (simp_all add: throwing_tool_def echo_tool_def int_throwing_tool_def)
  have e: "execute throwing_tool Map.empty idle_world = (Inl (StdException ''boom''), idle_world)"
    "execute echo_tool [''text'' \<mapsto> ''hi''] idle_world
       = (Inr \<lparr>call_id = ''mine'', success = True, tool_output = ''hi'', error = None\<rparr>, idle_world)"
    "execute int_throwing_tool Map.empty idle_world = (Inl OtherException, idle_world)"
    by (simp_all add: throwing_tool_def echo_tool_def int_throwing_tool_def)
  have 1: "registry_execute ?reg
       \<lparr>id_call = ''call_0'', name = ''thrower'', arguments = Map.empty\<rparr> idle_world
     = (Inr \<lparr>call_id = ''call_0'', success = False, tool_output = [],
              error = Some ''Tool execution failed: boom''\<rparr>, idle_world)"
    using C3_dispatch [of ?reg "\<lparr>id_call = ''call_0'', name = ''thrower'', arguments = Map.empty\<rparr>"
        idle_world] g(1) a(1) e(1)
    by simp
  have 2: "registry_execute ?reg
       \<lparr>id_call = ''call_1'', name = ''echo'', arguments = [''text'' \<mapsto> ''hi'']\<rparr> idle_world
     = (Inr \<lparr>call_id = ''call_1'', success = True, tool_output = ''hi'', error = None\<rparr>,
        idle_world)"
    using C3_dispatch [of ?reg
        "\<lparr>id_call = ''call_1'', name = ''echo'', arguments = [''text'' \<mapsto> ''hi'']\<rparr>" idle_world]
      g(2) a(2) e(2)
    by simp
  have 3: "registry_execute ?reg
       \<lparr>id_call = ''call_2'', name = ''nope'', arguments = Map.empty\<rparr> idle_world
     = (Inr \<lparr>call_id = ''call_2'', success = False, tool_output = [],
              error = Some ''Unknown tool: nope''\<rparr>, idle_world)"
    using C3_dispatch [of ?reg "\<lparr>id_call = ''call_2'', name = ''nope'', arguments = Map.empty\<rparr>"
        idle_world] g(3)
    by simp
  have 4: "registry_execute (register_tool (Some int_throwing_tool) []) thrower_call idle_world
     = (Inl OtherException, idle_world)"
    using C3_dispatch [of "register_tool (Some int_throwing_tool) []" thrower_call idle_world]
      g(4) a(3) e(3)
    by (simp add: thrower_call_def)
  show ?thesis
    using g a e 1 2 3 4 by simp
qed

section \<open>Conversation context (src/core/context.cpp)\<close>

record Context =
  messages :: "Message list"
  max_tokens :: nat

definition new_context :: Context where
  "new_context = \<lparr>messages = [], max_tokens = 16000\<rparr>"

definition estimate_tokens :: "Context \<Rightarrow> nat" where
  "estimate_tokens ctx = foldl (\<lambda>total msg. total + length (content msg) div 4) 0 (messages ctx)"

definition erase_oldest :: "Message list \<Rightarrow> Message list" where
  "erase_oldest msgs =
     (case msgs of
        [] \<Rightarrow> []
      | m # rest \<Rightarrow>
          if role m = System then (case rest of [] \<Rightarrow> [m] | _ # rest' \<Rightarrow> m # rest')
          else rest)"

function trim_if_needed :: "Context \<Rightarrow> Context" where
  "trim_if_needed ctx =
     (if estimate_tokens ctx > max_tokens ctx \<and> length (messages ctx) > 2
      then trim_if_needed (ctx\<lparr>messages := erase_oldest (messages ctx)\<rparr>)
      else ctx)"
  by pat_completeness auto
termination
  by (relation "measure (\<lambda>ctx. length (messages ctx))")
     (auto simp: erase_oldest_def split: list.splits)

definition add_message :: "Context \<Rightarrow> Message \<Rightarrow> Context" where
  "add_message ctx msg = trim_if_needed (ctx\<lparr>messages := messages ctx @ [msg]\<rparr>)"

definition clear :: "Context \<Rightarrow> Context" where
  "clear ctx = ctx\<lparr>messages := filter (\<lambda>m. \<not> role m \<noteq> System) (messages ctx)\<rparr>"

definition set_max_tokens :: "Context \<Rightarrow> nat \<Rightarrow> Context" where
  "set_max_tokens ctx m = ctx\<lparr>max_tokens := m\<rparr>"


text \<open>The eviction policy in the specification's words: the pinned turn is a System turn
  at the front; the oldest turn that is not pinned sits at index 1 behind a pinned turn and
  at index 0 otherwise.\<close>

definition pinned_front :: "Message list \<Rightarrow> bool" where
  "pinned_front msgs = (case msgs of [] \<Rightarrow> False | m # _ \<Rightarrow> role m = System)"

definition oldest_non_pinned :: "Message list \<Rightarrow> nat" where
  "oldest_non_pinned msgs = (if pinned_front msgs then 1 else 0)"

definition remove_turn :: "nat \<Rightarrow> Message list \<Rightarrow> Message list" where
  "remove_turn i msgs = take i msgs @ drop (Suc i) msgs"

definition over_budget :: "Context \<Rightarrow> bool" where
  "over_budget ctx = (estimate_tokens ctx > max_tokens ctx \<and> length (messages ctx) > 2)"

lemma erase_oldest_remove_turn:
  "length msgs > 2 \<Longrightarrow> erase_oldest msgs = remove_turn (oldest_non_pinned msgs) msgs"
  by (cases msgs; cases "tl msgs")
     (auto simp: erase_oldest_def remove_turn_def oldest_non_pinned_def pinned_front_def)

lemma subseq_erase_oldest: "subseq (erase_oldest msgs) msgs"
  by (auto simp: erase_oldest_def split: list.splits)

lemma pinned_erase_oldest:
  "pinned_front msgs \<Longrightarrow> length msgs > 2 \<Longrightarrow>
     pinned_front (erase_oldest msgs) \<and> hd (erase_oldest msgs) = hd msgs"
  by (auto simp: erase_oldest_def pinned_front_def split: list.splits)

declare trim_if_needed.simps [simp del]

lemma trim_stop: "\<not> over_budget ctx \<Longrightarrow> trim_if_needed ctx = ctx"
  by (subst trim_if_needed.simps) (auto simp: over_budget_def)

lemma trim_unfold:
  "over_budget ctx \<Longrightarrow>
     trim_if_needed ctx = trim_if_needed (ctx\<lparr>messages := erase_oldest (messages ctx)\<rparr>)"
  by (subst trim_if_needed.simps) (simp add: over_budget_def)

lemma trim_step:
  "over_budget ctx \<Longrightarrow>
     trim_if_needed ctx =
       trim_if_needed (ctx\<lparr>messages := remove_turn (oldest_non_pinned (messages ctx)) (messages ctx)\<rparr>)"
  using trim_unfold [of ctx] by (simp add: over_budget_def erase_oldest_remove_turn)

lemma trim_max_tokens: "max_tokens (trim_if_needed ctx) = max_tokens ctx"
proof (induction ctx rule: trim_if_needed.induct)
  case (1 ctx)
  show ?case
  proof (cases "over_budget ctx")
    case True
    then show ?thesis using "1" by (simp add: trim_unfold over_budget_def)
  next
    case False
    then show ?thesis by (simp add: trim_stop)
  qed
qed

lemma trim_subseq: "subseq (messages (trim_if_needed ctx)) (messages ctx)"
proof (induction ctx rule: trim_if_needed.induct)
  case (1 ctx)
  show ?case
  proof (cases "over_budget ctx")
    case True
    then have "subseq (messages (trim_if_needed ctx)) (erase_oldest (messages ctx))"
      using "1" by (simp add: trim_unfold over_budget_def)
    then show ?thesis
      using subseq_erase_oldest subseq_order.trans by blast
  next
    case False
    then show ?thesis by (simp add: trim_stop)
  qed
qed

lemma trim_pinned:
  "pinned_front (messages ctx) \<Longrightarrow>
     pinned_front (messages (trim_if_needed ctx))
     \<and> hd (messages (trim_if_needed ctx)) = hd (messages ctx)"
proof (induction ctx rule: trim_if_needed.induct)
  case (1 ctx)
  show ?case
  proof (cases "over_budget ctx")
    case True
    then have "pinned_front (erase_oldest (messages ctx))
        \<and> hd (erase_oldest (messages ctx)) = hd (messages ctx)"
      using pinned_erase_oldest "1.prems" by (simp add: over_budget_def)
    then show ?thesis
      using "1.IH" True by (simp add: trim_unfold over_budget_def)
  next
    case False
    then show ?thesis using "1.prems" by (simp add: trim_stop)
  qed
qed

lemma trim_within_budget: "\<not> over_budget (trim_if_needed ctx)"
proof (induction ctx rule: trim_if_needed.induct)
  case (1 ctx)
  show ?case
  proof (cases "over_budget ctx")
    case True
    then show ?thesis using "1" by (simp add: trim_unfold over_budget_def)
  next
    case False
    then show ?thesis by (simp add: trim_stop)
  qed
qed

text \<open>
  C6: appending a turn runs the eviction loop. While the estimate exceeds the budget and
  more than two turns remain, one step removes exactly the oldest turn that is not pinned
  (index 1 behind a System turn at the front, index 0 otherwise) and the loop goes on; it
  stops as soon as that condition fails; a System turn at the front stays at the front; and
  the turns that remain are a subsequence of the turns before, in their order.
\<close>

theorem C6_eviction:
  "add_message ctx msg = trim_if_needed (ctx\<lparr>messages := messages ctx @ [msg]\<rparr>)
   \<and> (\<forall>c. over_budget c \<longrightarrow>
          trim_if_needed c =
            trim_if_needed (c\<lparr>messages := remove_turn (oldest_non_pinned (messages c)) (messages c)\<rparr>))
   \<and> (\<forall>c. \<not> over_budget c \<longrightarrow> trim_if_needed c = c)
   \<and> \<not> over_budget (add_message ctx msg)
   \<and> (pinned_front (messages ctx @ [msg]) \<longrightarrow>
          pinned_front (messages (add_message ctx msg))
          \<and> hd (messages (add_message ctx msg)) = hd (messages ctx @ [msg]))
   \<and> subseq (messages (add_message ctx msg)) (messages ctx @ [msg])
   \<and> max_tokens (add_message ctx msg) = max_tokens ctx"
proof -
  let ?c = "ctx\<lparr>messages := messages ctx @ [msg]\<rparr>"
  have "\<forall>c. \<not> over_budget c \<longrightarrow> trim_if_needed c = c"
    by (simp add: trim_stop)
  moreover have "subseq (messages (trim_if_needed ?c)) (messages ctx @ [msg])"
    using trim_subseq [of ?c] by simp
  moreover have "pinned_front (messages ctx @ [msg]) \<longrightarrow>
      pinned_front (messages (trim_if_needed ?c))
      \<and> hd (messages (trim_if_needed ?c)) = hd (messages ctx @ [msg])"
    using trim_pinned [of ?c] by simp
  ultimately show ?thesis
    using trim_step trim_within_budget [of ?c] trim_max_tokens [of ?c]
    by (simp add: add_message_def)
qed

definition long_turn :: "Role \<Rightarrow> Message" where
  "long_turn r = \<lparr>role = r, content = ''0123456789abcdef'', tool_name = None,
     tool_call_id = None, images = []\<rparr>"

theorem C6_eviction_witness:
  "over_budget \<lparr>messages = [long_turn System, long_turn User, long_turn Assistant, long_turn User],
       max_tokens = 10\<rparr>
   \<and> pinned_front ([long_turn System, long_turn User, long_turn Assistant] @ [long_turn User])
   \<and> messages (add_message
         \<lparr>messages = [long_turn System, long_turn User, long_turn Assistant], max_tokens = 10\<rparr>
         (long_turn User))
       = [long_turn System, long_turn User]
   \<and> subseq [long_turn System, long_turn User]
         ([long_turn System, long_turn User, long_turn Assistant] @ [long_turn User])"
proof -
  let ?ctx = "\<lparr>messages = [long_turn System, long_turn User, long_turn Assistant], max_tokens = 10\<rparr>"
  have run: "messages (add_message ?ctx (long_turn User)) = [long_turn System, long_turn User]"
    by (simp add: add_message_def trim_if_needed.simps estimate_tokens_def erase_oldest_def
        long_turn_def System_def User_def Assistant_def)
  have "subseq (messages (add_message ?ctx (long_turn User))) (messages ?ctx @ [long_turn User])"
    using C6_eviction [of ?ctx "long_turn User"] by blast
  then have "subseq [long_turn System, long_turn User]
      ([long_turn System, long_turn User, long_turn Assistant] @ [long_turn User])"
    by (simp only: run Message.simps Context.simps)
  moreover have "over_budget \<lparr>messages = [long_turn System, long_turn User, long_turn Assistant,
      long_turn User], max_tokens = 10\<rparr>"
    by (simp add: over_budget_def estimate_tokens_def long_turn_def)
  moreover have "pinned_front ([long_turn System, long_turn User, long_turn Assistant] @ [long_turn User])"
    by (simp add: pinned_front_def long_turn_def)
  ultimately show ?thesis using run by blast
qed

section \<open>Saving and loading a context (src/core/context.cpp)\<close>

text \<open>
  Formatted stream output and input in the classic locale. \<^verbatim>\<open>operator<<\<close> prints an
  \<^verbatim>\<open>int\<close> or a \<^verbatim>\<open>size_t\<close> in decimal; \<^verbatim>\<open>operator>>\<close> skips white space, reads an optional
  sign and decimal digits, and sets \<^verbatim>\<open>failbit\<close> (the result \<open>None\<close>) when no digit follows
  or the value does not fit the type; for \<^verbatim>\<open>size_t\<close> a minus sign negates modulo \<open>2^64\<close>.
\<close>

definition is_space :: "char \<Rightarrow> bool" where
  "is_space c = (c = CHR '' '' \<or> (9 \<le> (of_char c :: nat) \<and> (of_char c :: nat) \<le> 13))"

definition is_digit :: "char \<Rightarrow> bool" where
  "is_digit c = (48 \<le> (of_char c :: nat) \<and> (of_char c :: nat) \<le> 57)"

definition digit_char :: "nat \<Rightarrow> char" where
  "digit_char d = ''0123456789'' ! d"

function decimal :: "nat \<Rightarrow> string" where
  "decimal n = (if n < 10 then [digit_char n] else decimal (n div 10) @ [digit_char (n mod 10)])"
  by pat_completeness auto
termination
  by (relation "measure id") auto

declare decimal.simps [simp del]

definition put_int :: "int \<Rightarrow> string" where
  "put_int i = (if i < 0 then CHR ''-'' # decimal (nat (- i)) else decimal (nat i))"

definition digits_value :: "string \<Rightarrow> nat" where
  "digits_value ds = foldl (\<lambda>acc c. 10 * acc + (of_char c - 48)) 0 ds"

definition extract_int :: "string \<Rightarrow> (int \<times> string) option" where
  "extract_int s =
     (let s1 = dropWhile is_space s;
          negative = (s1 \<noteq> [] \<and> hd s1 = CHR ''-'');
          s2 = (if s1 \<noteq> [] \<and> (hd s1 = CHR ''-'' \<or> hd s1 = CHR ''+'') then tl s1 else s1);
          ds = takeWhile is_digit s2
      in if ds = [] then None
         else let v = (if negative then - int (digits_value ds) else int (digits_value ds))
              in if v < - (2 ^ 31) \<or> 2 ^ 31 \<le> v then None
                 else Some (v, dropWhile is_digit s2))"

definition extract_size_t :: "string \<Rightarrow> (nat \<times> string) option" where
  "extract_size_t s =
     (let s1 = dropWhile is_space s;
          negative = (s1 \<noteq> [] \<and> hd s1 = CHR ''-'');
          s2 = (if s1 \<noteq> [] \<and> (hd s1 = CHR ''-'' \<or> hd s1 = CHR ''+'') then tl s1 else s1);
          ds = takeWhile is_digit s2
      in if ds = [] then None
         else if 2 ^ 64 \<le> digits_value ds then None
         else Some (if negative then (2 ^ 64 - digits_value ds) mod 2 ^ 64 else digits_value ds,
                    dropWhile is_digit s2))"

lemma length_dropWhile_takeWhile:
  "takeWhile p s \<noteq> [] \<Longrightarrow> length (dropWhile p s) < length s"
  by (induction s) (auto split: if_splits simp: le_imp_less_Suc length_dropWhile_le)

lemma extract_int_shorter: "extract_int s = Some (v, r) \<Longrightarrow> length r < length s"
proof -
  assume a: "extract_int s = Some (v, r)"
  define s1 where "s1 = dropWhile is_space s"
  define s2 where "s2 = (if s1 \<noteq> [] \<and> (hd s1 = CHR ''-'' \<or> hd s1 = CHR ''+'') then tl s1 else s1)"
  from a have "takeWhile is_digit s2 \<noteq> []" and r: "r = dropWhile is_digit s2"
    by (auto simp: extract_int_def Let_def s1_def s2_def split: if_splits)
  then have "length r < length s2" using length_dropWhile_takeWhile by blast
  moreover have "length s2 \<le> length s1" by (simp add: s2_def)
  moreover have "length s1 \<le> length s" by (simp add: s1_def length_dropWhile_le)
  ultimately show ?thesis by simp
qed

lemma extract_size_t_shorter: "extract_size_t s = Some (v, r) \<Longrightarrow> length r < length s"
proof -
  assume a: "extract_size_t s = Some (v, r)"
  define s1 where "s1 = dropWhile is_space s"
  define s2 where "s2 = (if s1 \<noteq> [] \<and> (hd s1 = CHR ''-'' \<or> hd s1 = CHR ''+'') then tl s1 else s1)"
  from a have "takeWhile is_digit s2 \<noteq> []" and r: "r = dropWhile is_digit s2"
    by (auto simp: extract_size_t_def Let_def s1_def s2_def split: if_splits)
  then have "length r < length s2" using length_dropWhile_takeWhile by blast
  moreover have "length s2 \<le> length s1" by (simp add: s2_def)
  moreover have "length s1 \<le> length s" by (simp add: s1_def length_dropWhile_le)
  ultimately show ?thesis by simp
qed

text \<open>
  The loop of \<^verbatim>\<open>Context::load\<close> over the rest of the file. \<^verbatim>\<open>file.ignore()\<close> drops one
  character; \<^verbatim>\<open>file.read\<close> fills a string of \<open>content_len\<close> NUL characters with what is left
  of the file, so a short file leaves NULs at the end. Once the file is exhausted every
  later extraction fails, as on a stream whose \<^verbatim>\<open>eofbit\<close> is set. A length that the
  allocator refuses is outside the model.
\<close>

function read_messages :: "string \<Rightarrow> Message list" where
  "read_messages s =
     (case extract_int s of
        None \<Rightarrow> []
      | Some (role_int, s1) \<Rightarrow>
          (case extract_size_t s1 of
             None \<Rightarrow> []
           | Some (content_len, s2) \<Rightarrow>
               \<lparr>role = word_of_int role_int,
                content = take content_len (drop 1 s2)
                          @ replicate (content_len - length (drop 1 s2)) (CHR 0x00),
                tool_name = None, tool_call_id = None, images = []\<rparr>
               # read_messages (drop 1 (drop content_len (drop 1 s2)))))"
  by pat_completeness auto
termination
proof (relation "measure length", goal_cases)
  case 1
  then show ?case by simp
next
  case (2 s x2 role_int s1 x2a content_len s2)
  then have "length s1 < length s" and "length s2 < length s1"
    using extract_int_shorter extract_size_t_shorter by auto
  then show ?case by simp
qed

declare read_messages.simps [simp del]

definition write_message :: "Message \<Rightarrow> string" where
  "write_message msg =
     put_int (sint (role msg)) @ [CHR 0x0A]
     @ decimal (length (content msg)) @ [CHR 0x0A]
     @ content msg @ [CHR 0x0A]"

text \<open>The files the process sees: the contents of the regular files, and which paths
  open for writing and for reading.\<close>

record FileSystem =
  files :: "string \<rightharpoonup> string"
  opens_for_writing :: "string \<Rightarrow> bool"
  opens_for_reading :: "string \<Rightarrow> bool"

definition save :: "Context \<Rightarrow> string \<Rightarrow> FileSystem \<Rightarrow> bool \<times> FileSystem" where
  "save ctx path fs =
     (if \<not> opens_for_writing fs path then (False, fs)
      else (True, fs\<lparr>files := (files fs)(path \<mapsto> concat (map write_message (messages ctx)))\<rparr>))"

definition load :: "Context \<Rightarrow> string \<Rightarrow> FileSystem \<Rightarrow> bool \<times> Context" where
  "load ctx path fs =
     (case files fs path of
        None \<Rightarrow> (False, ctx)
      | Some text \<Rightarrow>
          if \<not> opens_for_reading fs path then (False, ctx)
          else (True, ctx\<lparr>messages := read_messages text\<rparr>))"


text \<open>What \<^verbatim>\<open>load\<close> rebuilds of a turn: the fields a default-constructed \<^verbatim>\<open>Message\<close> has,
  with role and content assigned.\<close>

definition stored :: "Message \<Rightarrow> Message" where
  "stored msg = \<lparr>role = role msg, content = content msg, tool_name = None,
     tool_call_id = None, images = []\<rparr>"

lemma below_ten: "d < 10 \<Longrightarrow> d \<in> {0, 1, 2, 3, 4, 5, 6, 7, 8, 9::nat}"
  by auto

lemma is_digit_digit_char: "d < 10 \<Longrightarrow> is_digit (digit_char d)"
  by (drule below_ten) (auto simp: is_digit_def digit_char_def)

lemma digit_char_value: "d < 10 \<Longrightarrow> (of_char (digit_char d) :: nat) - 48 = d"
  by (drule below_ten) (auto simp: digit_char_def)

lemma is_digit_not_space: "is_digit c \<Longrightarrow> \<not> is_space c"
  by (auto simp: is_digit_def is_space_def)

lemma is_digit_not_sign: "is_digit c \<Longrightarrow> c \<noteq> CHR ''-'' \<and> c \<noteq> CHR ''+''"
  by (auto simp: is_digit_def)

lemma newline_not_digit: "\<not> is_digit (CHR 0x0A)"
  by (simp add: is_digit_def)

lemma newline_is_space: "is_space (CHR 0x0A)"
  by (simp add: is_space_def)

lemma minus_not_space: "\<not> is_space CHR ''-''"
  by (simp add: is_space_def)

lemma decimal_digits: "decimal n \<noteq> [] \<and> (\<forall>c \<in> set (decimal n). is_digit c)"
proof (induction n rule: decimal.induct)
  case (1 n)
  show ?case
  proof (cases "n < 10")
    case True
    then show ?thesis by (subst (1 2) decimal.simps) (simp add: is_digit_digit_char)
  next
    case False
    then have "decimal n = decimal (n div 10) @ [digit_char (n mod 10)]"
      by (subst decimal.simps) simp
    then show ?thesis using "1" False by (simp add: is_digit_digit_char)
  qed
qed

lemma digits_value_snoc: "digits_value (ds @ [c]) = 10 * digits_value ds + (of_char c - 48)"
  by (simp add: digits_value_def)

lemma digits_value_decimal: "digits_value (decimal n) = n"
proof (induction n rule: decimal.induct)
  case (1 n)
  show ?case
  proof (cases "n < 10")
    case True
    then show ?thesis
      by (subst decimal.simps) (simp add: digits_value_def digit_char_value)
  next
    case False
    then have "decimal n = decimal (n div 10) @ [digit_char (n mod 10)]"
      by (subst decimal.simps) simp
    then show ?thesis using "1" False by (simp add: digits_value_snoc digit_char_value)
  qed
qed

lemma takeWhile_decimal: "takeWhile is_digit (decimal n @ CHR 0x0A # r) = decimal n"
  using decimal_digits [of n] by (simp add: takeWhile_append2 newline_not_digit)

lemma dropWhile_decimal: "dropWhile is_digit (decimal n @ CHR 0x0A # r) = CHR 0x0A # r"
  using decimal_digits [of n] by (simp add: dropWhile_append2 newline_not_digit)

lemma decimal_head: "\<exists>c cs. decimal n = c # cs \<and> is_digit c"
  using decimal_digits [of n] by (cases "decimal n") auto

lemma extract_int_put_int:
  assumes "- (2 ^ 31) \<le> i" and "i < 2 ^ 31"
  shows "extract_int (put_int i @ CHR 0x0A # r) = Some (i, CHR 0x0A # r)"
proof (cases "i < 0")
  case True
  then show ?thesis
    using assms
    by (simp add: extract_int_def put_int_def minus_not_space takeWhile_decimal dropWhile_decimal
        digits_value_decimal decimal_digits)
next
  case False
  obtain c cs where d: "decimal (nat i) = c # cs" and c: "is_digit c"
    using decimal_head by blast
  have "dropWhile is_space (put_int i @ CHR 0x0A # r) = decimal (nat i) @ CHR 0x0A # r"
    using False d c by (simp add: put_int_def is_digit_not_space)
  moreover have "hd (decimal (nat i) @ CHR 0x0A # r) \<noteq> CHR ''-''"
    and "hd (decimal (nat i) @ CHR 0x0A # r) \<noteq> CHR ''+''"
    using d c is_digit_not_sign by auto
  ultimately show ?thesis
    using assms False
    by (simp add: extract_int_def takeWhile_decimal dropWhile_decimal digits_value_decimal
        decimal_digits)
qed

lemma extract_size_t_decimal:
  assumes "n < 2 ^ 64"
  shows "extract_size_t (CHR 0x0A # decimal n @ CHR 0x0A # r) = Some (n, CHR 0x0A # r)"
proof -
  obtain c cs where d: "decimal n = c # cs" and c: "is_digit c"
    using decimal_head by blast
  have "dropWhile is_space (CHR 0x0A # decimal n @ CHR 0x0A # r) = decimal n @ CHR 0x0A # r"
    using d c by (simp add: newline_is_space is_digit_not_space)
  moreover have "hd (decimal n @ CHR 0x0A # r) \<noteq> CHR ''-''"
    and "hd (decimal n @ CHR 0x0A # r) \<noteq> CHR ''+''"
    using d c is_digit_not_sign by auto
  ultimately show ?thesis
    using assms
    by (simp add: extract_size_t_def takeWhile_decimal dropWhile_decimal digits_value_decimal
        decimal_digits)
qed

lemma read_messages_write_message:
  assumes "length (content msg) < 2 ^ 64"
  shows "read_messages (write_message msg @ rest) = stored msg # read_messages rest"
proof -
  have range: "- (2 ^ 31) \<le> sint (role msg)" "sint (role msg) < 2 ^ 31"
    using sint_ge [of "role msg"] sint_lt [of "role msg"] by simp_all
  have 1: "extract_int (write_message msg @ rest)
      = Some (sint (role msg),
          CHR 0x0A # decimal (length (content msg)) @ CHR 0x0A # (content msg @ CHR 0x0A # rest))"
    using extract_int_put_int [OF range] by (simp add: write_message_def)
  have 2: "extract_size_t
        (CHR 0x0A # decimal (length (content msg)) @ CHR 0x0A # (content msg @ CHR 0x0A # rest))
      = Some (length (content msg), CHR 0x0A # (content msg @ CHR 0x0A # rest))"
    using extract_size_t_decimal [OF assms] by simp
  show ?thesis
    by (subst read_messages.simps) (simp add: 1 2 stored_def)
qed

lemma read_messages_empty: "read_messages [] = []"
  by (subst read_messages.simps) (simp add: extract_int_def)

lemma read_messages_written:
  "\<forall>m \<in> set msgs. length (content m) < 2 ^ 64 \<Longrightarrow>
     read_messages (concat (map write_message msgs)) = map stored msgs"
  by (induction msgs) (simp_all add: read_messages_empty read_messages_write_message)

text \<open>
  C8: a context saved to a path that opens for writing and loaded back from it gives the same
  turns in the same order, each with its role and its content (empty, or with newlines and
  digits in it, alike); tool name, call id and images are dropped. A \<^verbatim>\<open>std::string\<close>'s
  length is a \<^verbatim>\<open>size_t\<close>, which is the only assumption on the contents.
\<close>

theorem C8_save_load_roundtrip:
  assumes "opens_for_writing fs path" and "opens_for_reading fs path"
    and "\<forall>m \<in> set (messages ctx). length (content m) < 2 ^ 64"
  shows "fst (save ctx path fs)
     \<and> fst (load other path (snd (save ctx path fs)))
     \<and> messages (snd (load other path (snd (save ctx path fs)))) = map stored (messages ctx)
     \<and> map role (messages (snd (load other path (snd (save ctx path fs)))))
         = map role (messages ctx)
     \<and> map content (messages (snd (load other path (snd (save ctx path fs)))))
         = map content (messages ctx)"
  using assms by (simp add: save_def load_def read_messages_written stored_def comp_def)

definition sample_turns :: "Message list" where
  "sample_turns =
     [system_msg ''be brief'',
      user_msg [] [''shot.png''],
      tool_result_msg ''tools'' [] [CHR ''1'', CHR ''2'', CHR 0x0A, CHR 0x0A, CHR ''3'', CHR '' ''],
      assistant_msg ''42'']"

definition open_files :: FileSystem where
  "open_files = \<lparr>files = Map.empty, opens_for_writing = (\<lambda>p. True),
     opens_for_reading = (\<lambda>p. True)\<rparr>"

theorem C8_save_load_roundtrip_witness:
  "opens_for_writing open_files ''chat.txt'' \<and> opens_for_reading open_files ''chat.txt''
   \<and> list_all (\<lambda>m. length (content m) < 2 ^ 64) sample_turns
   \<and> messages (snd (load new_context ''chat.txt''
        (snd (save \<lparr>messages = sample_turns, max_tokens = 16000\<rparr> ''chat.txt'' open_files))))
     = [\<lparr>role = System, content = ''be brief'', tool_name = None, tool_call_id = None,
          images = []\<rparr>,
        \<lparr>role = User, content = [], tool_name = None, tool_call_id = None, images = []\<rparr>,
        \<lparr>role = Tool, content = [CHR ''1'', CHR ''2'', CHR 0x0A, CHR 0x0A, CHR ''3'', CHR '' ''],
          tool_name = None, tool_call_id = None, images = []\<rparr>,
        \<lparr>role = Assistant, content = ''42'', tool_name = None, tool_call_id = None,
          images = []\<rparr>]"
proof -
  have len: "\<forall>m \<in> set (messages \<lparr>messages = sample_turns, max_tokens = 16000\<rparr>).
      length (content m) < 2 ^ 64"
    by (simp add: sample_turns_def system_msg_def user_msg_def tool_result_msg_def
        assistant_msg_def)
  have w: "opens_for_writing open_files ''chat.txt''" and r: "opens_for_reading open_files ''chat.txt''"
    by (simp_all add: open_files_def)
  have "messages (snd (load new_context ''chat.txt''
        (snd (save \<lparr>messages = sample_turns, max_tokens = 16000\<rparr> ''chat.txt'' open_files))))
      = map stored (messages \<lparr>messages = sample_turns, max_tokens = 16000\<rparr>)"
    using C8_save_load_roundtrip [OF w r len, of new_context] by blast
  then show ?thesis
    using w r
    by (simp add: sample_turns_def stored_def system_msg_def user_msg_def tool_result_msg_def
        assistant_msg_def)
qed

section \<open>Regular expressions (the fragment of std::regex the parser uses)\<close>

text \<open>
  \<^verbatim>\<open>std::regex\<close> in its default ECMAScript grammar matches by backtracking: a greedy
  quantifier tries the longest repetition first and gives characters back one at a time, a
  lazy one tries the shortest first, and the first way through the whole pattern wins. The
  two patterns of \<^verbatim>\<open>parse_tool_calls\<close> are sequences of literals and of quantified character
  classes, some inside a capture group; that is the fragment modelled.
\<close>

datatype atom =
    Lit string
  | Greedy "char \<Rightarrow> bool" nat
  | Lazy "char \<Rightarrow> bool" nat
  | Group atom

fun first_match :: "(nat \<Rightarrow> 'a option) \<Rightarrow> nat list \<Rightarrow> 'a option" where
  "first_match f [] = None"
| "first_match f (k # ks) = (case f k of Some r \<Rightarrow> Some r | None \<Rightarrow> first_match f ks)"

text \<open>\<open>rx_match\<close> anchors the pattern at the start of the input and returns the substring
  each atom matched and the rest of the input.\<close>

fun rx_match :: "atom list \<Rightarrow> string \<Rightarrow> (string list \<times> string) option" where
  "rx_match [] s = Some ([], s)"
| "rx_match (Lit l # as) s =
     (if take (length l) s = l
      then map_option (\<lambda>(ps, r). (l # ps, r)) (rx_match as (drop (length l) s))
      else None)"
| "rx_match (Greedy p lo # as) s =
     first_match (\<lambda>k. map_option (\<lambda>(ps, r). (take k s # ps, r)) (rx_match as (drop k s)))
       (rev [lo ..< Suc (length (takeWhile p s))])"
| "rx_match (Lazy p lo # as) s =
     first_match (\<lambda>k. map_option (\<lambda>(ps, r). (take k s # ps, r)) (rx_match as (drop k s)))
       [lo ..< Suc (length (takeWhile p s))]"
| "rx_match (Group a # as) s = rx_match (a # as) s"

fun groups :: "atom list \<Rightarrow> string list \<Rightarrow> string list" where
  "groups (Group a # as) (p # ps) = p # groups as ps"
| "groups (a # as) (p # ps) = groups as ps"
| "groups as ps = []"

text \<open>\<^verbatim>\<open>std::regex_search\<close>: the leftmost start position at which the pattern matches. The
  result is the \<^verbatim>\<open>std::smatch\<close> (the whole match, then the capture groups) and the suffix
  behind the match.\<close>

fun regex_search :: "atom list \<Rightarrow> string \<Rightarrow> (string list \<times> string) option" where
  "regex_search rx [] =
     (case rx_match rx [] of Some (ps, r) \<Rightarrow> Some (concat ps # groups rx ps, r) | None \<Rightarrow> None)"
| "regex_search rx (c # s) =
     (case rx_match rx (c # s) of
        Some (ps, r) \<Rightarrow> Some (concat ps # groups rx ps, r)
      | None \<Rightarrow> regex_search rx s)"

definition sub_match :: "string list \<Rightarrow> nat \<Rightarrow> string" where
  "sub_match m i = (if i < length m then m ! i else [])"

definition word_char :: "char \<Rightarrow> bool" where
  "word_char c =
     (is_digit c \<or> (65 \<le> (of_char c :: nat) \<and> (of_char c :: nat) \<le> 90)
      \<or> (97 \<le> (of_char c :: nat) \<and> (of_char c :: nat) \<le> 122) \<or> c = CHR ''_'')"

definition not_line_end :: "char \<Rightarrow> bool" where
  "not_line_end c = (c \<noteq> CHR 0x0A \<and> c \<noteq> CHR 0x0D)"

definition any_char :: "char \<Rightarrow> bool" where
  "any_char c = True"

definition tool_regex :: "atom list" where
  "tool_regex =
     [Lit ''<tool_call>'', Greedy is_space 0, Lit ''name:'', Greedy is_space 0,
      Group (Greedy word_char 1), Greedy is_space 0, Lit ''arguments:'', Greedy is_space 0,
      Group (Lazy any_char 0), Lit ''</tool_call>'']"

definition arg_regex :: "atom list" where
  "arg_regex = [Group (Greedy word_char 1), Lit '':'', Greedy is_space 0, Group (Greedy not_line_end 1)]"


lemma first_match_Some: "first_match f ks = Some r \<Longrightarrow> \<exists>k \<in> set ks. f k = Some r"
  by (induction ks) (auto split: option.splits)

lemma split_at: "drop k s = t \<Longrightarrow> s = take k s @ t"
  using append_take_drop_id [of k s] by simp

lemma rx_match_sound: "rx_match rx s = Some (ps, r) \<Longrightarrow> s = concat ps @ r"
proof (induction rx s arbitrary: ps r rule: rx_match.induct)
  case (1 s)
  then show ?case by simp
next
  case (2 l as s)
  then obtain ps' where m: "rx_match as (drop (length l) s) = Some (ps', r)"
    and ps: "ps = l # ps'" and l: "take (length l) s = l"
    by (auto split: if_splits)
  have "drop (length l) s = concat ps' @ r"
    using "2.IH" l m by simp
  then have "s = take (length l) s @ concat ps' @ r" by (rule split_at)
  then show ?case using l ps by simp
next
  case (3 p lo as s)
  then obtain k ps' where m: "rx_match as (drop k s) = Some (ps', r)" and ps: "ps = take k s # ps'"
    and k: "k \<in> set (rev [lo ..< Suc (length (takeWhile p s))])"
    by (auto dest!: first_match_Some)
  have "drop k s = concat ps' @ r"
    using "3.IH" [OF m] .
  then have "s = take k s @ concat ps' @ r" by (rule split_at)
  then show ?case using ps by simp
next
  case (4 p lo as s)
  then obtain k ps' where m: "rx_match as (drop k s) = Some (ps', r)" and ps: "ps = take k s # ps'"
    and k: "k \<in> set [lo ..< Suc (length (takeWhile p s))]"
    by (auto dest!: first_match_Some)
  have "drop k s = concat ps' @ r"
    using "4.IH" [OF m] .
  then have "s = take k s @ concat ps' @ r" by (rule split_at)
  then show ?case using ps by simp
next
  case (5 a as s)
  then show ?case by simp
qed

lemma regex_search_sound:
  "regex_search rx s = Some (m, r) \<Longrightarrow>
     \<exists>pre ps. s = pre @ concat ps @ r \<and> rx_match rx (concat ps @ r) = Some (ps, r)
       \<and> m = concat ps # groups rx ps"
proof (induction s)
  case Nil
  then obtain ps where a: "rx_match rx [] = Some (ps, r)" and m: "m = concat ps # groups rx ps"
    by (auto split: option.splits)
  from a have e: "[] = concat ps @ r" by (rule rx_match_sound)
  have "rx_match rx (concat ps @ r) = Some (ps, r)"
    unfolding e [symmetric] by (rule a)
  moreover have "[] = [] @ concat ps @ r"
    using e by simp
  ultimately show ?case
    using m by blast
next
  case (Cons c s)
  show ?case
  proof (cases "rx_match rx (c # s)")
    case None
    then have "regex_search rx s = Some (m, r)" using Cons.prems by simp
    then obtain pre ps where "s = pre @ concat ps @ r"
      and "rx_match rx (concat ps @ r) = Some (ps, r)" and "m = concat ps # groups rx ps"
      using Cons.IH by blast
    then show ?thesis by (intro exI [of _ "c # pre"] exI [of _ ps]) simp
  next
    case (Some a)
    then obtain ps where a: "rx_match rx (c # s) = Some (ps, r)" and m: "m = concat ps # groups rx ps"
      using Cons.prems by (cases a) auto
    from a have e: "c # s = concat ps @ r" by (rule rx_match_sound)
    have "rx_match rx (concat ps @ r) = Some (ps, r)"
      unfolding e [symmetric] by (rule a)
    moreover have "c # s = [] @ concat ps @ r"
      using e by simp
    ultimately show ?thesis
      using m by blast
  qed
qed

lemma regex_search_shorter:
  "regex_search rx s = Some (m, r) \<Longrightarrow> sub_match m 0 \<noteq> [] \<Longrightarrow> length r < length s"
  by (drule regex_search_sound) (auto simp: sub_match_def)

text \<open>
  The loop over a \<^verbatim>\<open>std::sregex_iterator\<close>: each search starts where the match before it
  ended. Neither pattern of the parser matches the empty string (both begin with a
  mandatory character), so the iterator's handling of an empty match is not modelled: the
  loop stops behind one.
\<close>

function regex_matches :: "atom list \<Rightarrow> string \<Rightarrow> string list list" where
  "regex_matches rx s =
     (case regex_search rx s of
        None \<Rightarrow> []
      | Some (m, r) \<Rightarrow> if sub_match m 0 = [] then [m] else m # regex_matches rx r)"
  by pat_completeness auto
termination
  by (relation "measure (\<lambda>(rx, s). length s)") (auto simp: regex_search_shorter)

declare regex_matches.simps [simp del]

text \<open>\<^verbatim>\<open>std::string\<close> members used to trim a value. \<open>npos\<close> is the largest \<^verbatim>\<open>size_t\<close>;
  \<^verbatim>\<open>erase\<close> throws \<^verbatim>\<open>std::out_of_range\<close> when the position lies behind the end.\<close>

definition npos :: nat where
  "npos = 2 ^ 64 - 1"

definition find_first_not_of :: "string \<Rightarrow> string \<Rightarrow> nat" where
  "find_first_not_of chars s =
     (if \<forall>c \<in> set s. c \<in> set chars then npos
      else length (takeWhile (\<lambda>c. c \<in> set chars) s))"

definition find_last_not_of :: "string \<Rightarrow> string \<Rightarrow> nat" where
  "find_last_not_of chars s =
     (if \<forall>c \<in> set s. c \<in> set chars then npos
      else length s - 1 - length (takeWhile (\<lambda>c. c \<in> set chars) (rev s)))"

definition erase :: "nat \<Rightarrow> nat \<Rightarrow> string \<Rightarrow> fault + string" where
  "erase pos n s =
     (if length s < pos then Inl (StdException ''basic_string::erase'')
      else Inr (take pos s @ drop (pos + min n (length s - pos)) s))"

definition trim_chars :: string where
  "trim_chars = [CHR '' '', CHR 0x09, CHR 0x0A, CHR 0x0D]"

definition trim_value :: "string \<Rightarrow> fault + string" where
  "trim_value v =
     (case erase 0 (find_first_not_of trim_chars v) v of
        Inl e \<Rightarrow> Inl e
      | Inr v1 \<Rightarrow> erase ((find_last_not_of trim_chars v1 + 1) mod 2 ^ 64) npos v1)"

text \<open>The inner loop of \<^verbatim>\<open>parse_tool_calls\<close>: every \<^verbatim>\<open>key: value\<close> match assigns
  \<^verbatim>\<open>call.arguments[key]\<close>, a later assignment to a key replacing an earlier one.\<close>

fun parse_arguments ::
  "string list list \<Rightarrow> (string \<rightharpoonup> string) \<Rightarrow> fault + (string \<rightharpoonup> string)" where
  "parse_arguments [] args = Inr args"
| "parse_arguments (arg_match # rest) args =
     (case trim_value (sub_match arg_match 2) of
        Inl e \<Rightarrow> Inl e
      | Inr v \<Rightarrow> parse_arguments rest (args(sub_match arg_match 1 \<mapsto> v)))"

text \<open>The outer loop, with the counter \<^verbatim>\<open>call_id\<close>; \<^verbatim>\<open>std::to_string\<close> prints it in
  decimal.\<close>

fun parse_matches :: "int \<Rightarrow> string list list \<Rightarrow> fault + ToolCall list" where
  "parse_matches counter [] = Inr []"
| "parse_matches counter (m # rest) =
     (case parse_arguments (regex_matches arg_regex (sub_match m 2)) Map.empty of
        Inl e \<Rightarrow> Inl e
      | Inr args \<Rightarrow>
          (case parse_matches (counter + 1) rest of
             Inl e \<Rightarrow> Inl e
           | Inr calls \<Rightarrow>
               Inr (\<lparr>id_call = ''call_'' @ put_int counter, name = sub_match m 1,
                     arguments = args\<rparr> # calls)))"

definition parse_tool_calls :: "string \<Rightarrow> fault + ToolCall list" where
  "parse_tool_calls response = parse_matches 0 (regex_matches tool_regex response)"

section \<open>Parsing the end-to-end scenario's response\<close>

definition scenario_response :: string where
  "scenario_response =
     ''<call>'' @ [CHR 0x0A] @ ''name: list_directory'' @ [CHR 0x0A] @ ''arguments:''
     @ [CHR 0x0A] @ ''  path: .'' @ [CHR 0x0A] @ ''</call>''"

definition tool_call_response :: string where
  "tool_call_response =
     ''<tool_call>'' @ [CHR 0x0A] @ ''name: list_directory'' @ [CHR 0x0A] @ ''arguments:''
     @ [CHR 0x0A] @ ''  path: .'' @ [CHR 0x0A] @ ''</tool_call>''"

text \<open>
  C2, as stated, fails: the pattern of \<^verbatim>\<open>parse_tool_calls\<close> looks for the delimiters
  \<^verbatim>\<open><tool_call>\<close> and \<^verbatim>\<open></tool_call>\<close> (the format \<^verbatim>\<open>format_tools_prompt\<close> announces to the
  model), so the response delimited by \<^verbatim>\<open><call>\<close> and \<^verbatim>\<open></call>\<close> yields no request.
\<close>

theorem C2_call_delimiter_counterexample: "parse_tool_calls scenario_response = Inr []"
  by (simp add: parse_tool_calls_def regex_matches.simps tool_regex_def scenario_response_def)

text \<open>
  C2 (amended): the same response with the delimiters \<^verbatim>\<open><tool_call>\<close> and \<^verbatim>\<open></tool_call>\<close>
  yields exactly one request, with id \<^verbatim>\<open>call_0\<close>, name \<^verbatim>\<open>list_directory\<close> and the single
  argument \<^verbatim>\<open>path\<close> = \<^verbatim>\<open>.\<close>
\<close>

theorem C2_tool_call_scenario:
  "parse_tool_calls tool_call_response =
     Inr [\<lparr>id_call = ''call_0'', name = ''list_directory'', arguments = [''path'' \<mapsto> ''.'']\<rparr>]"
  by (simp add: parse_tool_calls_def regex_matches.simps tool_regex_def tool_call_response_def
      is_space_def word_char_def is_digit_def any_char_def sub_match_def arg_regex_def
      not_line_end_def trim_value_def erase_def find_first_not_of_def find_last_not_of_def
      trim_chars_def npos_def put_int_def decimal.simps digit_char_def)

section \<open>The parser never raises and skips malformed blocks\<close>







text \<open>What a match of a pattern looks like: every atom's piece conforms to the atom.\<close>

fun conforms :: "atom \<Rightarrow> string \<Rightarrow> bool" where
  "conforms (Lit l) p = (p = l)"
| "conforms (Greedy P lo) p = (lo \<le> length p \<and> list_all P p)"
| "conforms (Lazy P lo) p = (lo \<le> length p \<and> list_all P p)"
| "conforms (Group a) p = conforms a p"

lemma take_run: "k \<le> length (takeWhile P s) \<Longrightarrow> list_all P (take k s) \<and> length (take k s) = k"
proof -
  assume k: "k \<le> length (takeWhile P s)"
  have "take k s = take k (takeWhile P s)"
    using k by (induction s arbitrary: k) (auto simp: take_Cons')
  moreover have "list_all P (take k (takeWhile P s))"
    by (metis in_set_takeD list_all_iff set_takeWhileD)
  moreover have "length (takeWhile P s) \<le> length s"
    by (rule length_takeWhile_le)
  ultimately show ?thesis using k by simp
qed

lemma rx_match_conforms: "rx_match rx s = Some (ps, r) \<Longrightarrow> list_all2 conforms rx ps"
proof (induction rx s arbitrary: ps r rule: rx_match.induct)
  case (1 s)
  then show ?case by simp
next
  case (2 l as s)
  then obtain ps' where m: "rx_match as (drop (length l) s) = Some (ps', r)"
    and ps: "ps = l # ps'" and l: "take (length l) s = l"
    by (auto split: if_splits)
  then show ?case using "2.IH" by simp
next
  case (3 P lo as s)
  then obtain k ps' where m: "rx_match as (drop k s) = Some (ps', r)" and ps: "ps = take k s # ps'"
    and k: "k \<in> set (rev [lo ..< Suc (length (takeWhile P s))])"
    by (auto dest!: first_match_Some)
  then have "lo \<le> k" and "k \<le> length (takeWhile P s)" by auto
  then have "conforms (Greedy P lo) (take k s)"
    using take_run [of k P s] by simp
  then show ?case using "3.IH" [OF m] ps by simp
next
  case (4 P lo as s)
  then obtain k ps' where m: "rx_match as (drop k s) = Some (ps', r)" and ps: "ps = take k s # ps'"
    and k: "k \<in> set [lo ..< Suc (length (takeWhile P s))]"
    by (auto dest!: first_match_Some)
  then have "lo \<le> k" and "k \<le> length (takeWhile P s)" by auto
  then have "conforms (Lazy P lo) (take k s)"
    using take_run [of k P s] by simp
  then show ?case using "4.IH" [OF m] ps by simp
next
  case (5 a as s)
  then have "list_all2 conforms (a # as) ps" by simp
  then show ?case by (cases ps) auto
qed

lemma tool_regex_shape:
  assumes "rx_match tool_regex s = Some (ps, r)"
  shows "\<exists>w1 w2 nm w3 w4 body.
      ps = [''<tool_call>'', w1, ''name:'', w2, nm, w3, ''arguments:'', w4, body, ''</tool_call>'']
      \<and> s = ''<tool_call>'' @ w1 @ ''name:'' @ w2 @ nm @ w3 @ ''arguments:'' @ w4 @ body
              @ ''</tool_call>'' @ r
      \<and> list_all is_space w1 \<and> nm \<noteq> []"
proof -
  have c: "list_all2 conforms tool_regex ps"
    using assms by (rule rx_match_conforms)
  have s: "s = concat ps @ r"
    using assms by (rule rx_match_sound)
  from c obtain w1 w2 nm w3 w4 body where
    ps: "ps = [''<tool_call>'', w1, ''name:'', w2, nm, w3, ''arguments:'', w4, body, ''</tool_call>'']"
    and "list_all is_space w1" and "1 \<le> length nm"
    by (auto simp: tool_regex_def list_all2_Cons1)
  moreover from this have "nm \<noteq> []" by auto
  ultimately show ?thesis using s by auto
qed


text \<open>In the specification's words a block has a name field when, behind the opening
  delimiter and optional white space, the text goes on with \<^verbatim>\<open>name:\<close>.\<close>

definition opens_named_block :: "string \<Rightarrow> bool" where
  "opens_named_block s =
     (prefix ''<tool_call>'' s
      \<and> prefix ''name:'' (dropWhile is_space (drop (length ''<tool_call>'') s)))"

lemma rx_match_opens_named_block:
  assumes "rx_match tool_regex s = Some (ps, r)"
  shows "opens_named_block s"
proof -
  obtain w1 t where s: "s = ''<tool_call>'' @ w1 @ ''name:'' @ t" and w1: "list_all is_space w1"
    using tool_regex_shape [OF assms] by blast
  have "dropWhile is_space (w1 @ ''name:'' @ t) = ''name:'' @ t"
    using w1 by (simp add: dropWhile_append2 list_all_iff is_space_def)
  then show ?thesis
    by (simp add: opens_named_block_def s)
qed

lemma regex_search_delimiters:
  assumes "regex_search tool_regex s = Some (m, r)"
  shows "sublist ''<tool_call>'' s \<and> sublist ''name:'' s \<and> sublist ''</tool_call>'' s"
proof -
  obtain pre ps where s: "s = pre @ concat ps @ r"
    and m: "rx_match tool_regex (concat ps @ r) = Some (ps, r)"
    using regex_search_sound [OF assms] by blast
  obtain w1 w2 nm w3 w4 body where
    "concat ps @ r = ''<tool_call>'' @ w1 @ ''name:'' @ w2 @ nm @ w3 @ ''arguments:'' @ w4 @ body
       @ ''</tool_call>'' @ r"
    using tool_regex_shape [OF m] by blast
  then have e: "s = pre @ ''<tool_call>'' @ (w1 @ ''name:'' @ w2 @ nm @ w3 @ ''arguments:'' @ w4 @ body
       @ ''</tool_call>'' @ r)"
    and f: "s = (pre @ ''<tool_call>'' @ w1) @ ''name:'' @ (w2 @ nm @ w3 @ ''arguments:'' @ w4 @ body
       @ ''</tool_call>'' @ r)"
    and g: "s = (pre @ ''<tool_call>'' @ w1 @ ''name:'' @ w2 @ nm @ w3 @ ''arguments:'' @ w4 @ body)
       @ ''</tool_call>'' @ r"
    using s by simp_all
  have "sublist ''<tool_call>'' s" by (subst e) (rule sublist_appendI)
  moreover have "sublist ''name:'' s" by (subst f) (rule sublist_appendI)
  moreover have "sublist ''</tool_call>'' s" by (subst g) (rule sublist_appendI)
  ultimately show ?thesis by blast
qed

lemma regex_matches_none: "regex_search rx s = None \<Longrightarrow> regex_matches rx s = []"
  by (subst regex_matches.simps) simp

lemma parse_nothing_without_delimiters:
  assumes "\<not> (sublist ''<tool_call>'' s \<and> sublist ''name:'' s \<and> sublist ''</tool_call>'' s)"
  shows "parse_tool_calls s = Inr []"
proof -
  have "regex_search tool_regex s = None"
    using regex_search_delimiters [of s] assms by (cases "regex_search tool_regex s") auto
  then show ?thesis
    by (simp add: parse_tool_calls_def regex_matches_none)
qed

lemma parse_skips_position:
  assumes "\<not> opens_named_block s"
  shows "parse_tool_calls s = parse_tool_calls (tl s)"
proof (cases s)
  case Nil
  then show ?thesis by simp
next
  case (Cons c t)
  have "rx_match tool_regex (c # t) = None"
    using rx_match_opens_named_block [of "c # t"] assms Cons
    by (cases "rx_match tool_regex (c # t)") auto
  then have "regex_search tool_regex (c # t) = regex_search tool_regex t"
    by simp
  then have "regex_matches tool_regex (c # t) = regex_matches tool_regex t"
    by (subst (1 2) regex_matches.simps) simp
  then show ?thesis
    by (simp add: parse_tool_calls_def Cons)
qed





section \<open>The stack the regex engine uses\<close>

text \<open>
  \<^verbatim>\<open>std::regex\<close> matches by recursion: the executor calls itself once for every character a
  match attempt consumes, so the depth of the recursion is the number of characters on the
  path it is trying. \<^verbatim>\<open>parse_tool_calls\<close> calls it on the whole response with no limit on its
  length and no handler, and a run of a quantifier that is longer than the stack holds ends
  the process. \<open>rx_depth\<close> is the longest path an anchored attempt tries, in characters: a
  literal is followed as far as it agrees with the input, a greedy quantifier first consumes
  its whole run, and of a quantifier's repetition counts those are tried that come before
  the first one that lets the rest of the pattern match, and that one.
\<close>

fun matched_chars :: "string \<Rightarrow> string \<Rightarrow> nat" where
  "matched_chars [] s = 0"
| "matched_chars (c # l) [] = 0"
| "matched_chars (c # l) (x # s) = (if c = x then Suc (matched_chars l s) else 0)"

fun explored :: "(nat \<Rightarrow> 'a option) \<Rightarrow> nat list \<Rightarrow> nat list" where
  "explored f [] = []"
| "explored f (k # ks) = (case f k of Some r \<Rightarrow> [k] | None \<Rightarrow> k # explored f ks)"

fun rx_depth :: "atom list \<Rightarrow> string \<Rightarrow> nat" where
  "rx_depth [] s = 0"
| "rx_depth (Lit l # as) s =
     (if take (length l) s = l then length l + rx_depth as (drop (length l) s)
      else matched_chars l s)"
| "rx_depth (Greedy p lo # as) s =
     foldr max
       (map (\<lambda>k. k + rx_depth as (drop k s))
          (explored (\<lambda>k. rx_match as (drop k s)) (rev [lo ..< Suc (length (takeWhile p s))])))
       (length (takeWhile p s))"
| "rx_depth (Lazy p lo # as) s =
     foldr max
       (map (\<lambda>k. k + rx_depth as (drop k s))
          (explored (\<lambda>k. rx_match as (drop k s)) [lo ..< Suc (length (takeWhile p s))]))
       (min lo (length (takeWhile p s)))"
| "rx_depth (Group a # as) s = rx_depth (a # as) s"

text \<open>The deepest attempt of a search, which tries the start positions from the left up to
  the first that matches, and of all the searches of an iterator loop.\<close>

fun search_depth :: "atom list \<Rightarrow> string \<Rightarrow> nat" where
  "search_depth rx [] = rx_depth rx []"
| "search_depth rx (c # s) =
     (case rx_match rx (c # s) of
        Some m \<Rightarrow> rx_depth rx (c # s)
      | None \<Rightarrow> max (rx_depth rx (c # s)) (search_depth rx s))"

function matches_depth :: "atom list \<Rightarrow> string \<Rightarrow> nat" where
  "matches_depth rx s =
     (case regex_search rx s of
        None \<Rightarrow> search_depth rx s
      | Some (m, r) \<Rightarrow>
          if sub_match m 0 = [] then search_depth rx s
          else max (search_depth rx s) (matches_depth rx r))"
  by pat_completeness auto
termination
  by (relation "measure (\<lambda>(rx, s). length s)") (auto simp: regex_search_shorter)

declare matches_depth.simps [simp del]

definition parse_depth :: "string \<Rightarrow> nat" where
  "parse_depth response =
     foldr max
       (map (\<lambda>m. matches_depth arg_regex (sub_match m 2)) (regex_matches tool_regex response))
       (matches_depth tool_regex response)"

text \<open>
  \<^verbatim>\<open>Agent::parse_tool_calls\<close> on a stack that holds \<open>stack\<close> levels of the executor's
  recursion (about thirty thousand on a Linux default stack): the process ends when a search
  goes deeper, and otherwise the function returns what its loops compute.
\<close>

definition parse_tool_calls_on :: "nat \<Rightarrow> string \<Rightarrow> fault + ToolCall list" where
  "parse_tool_calls_on stack response =
     (if stack < parse_depth response then Inl StackExhausted else parse_tool_calls response)"


section \<open>Well-formed blocks are parsed in order\<close>











declare rx_match.simps [simp del]







text \<open>
  A block in the format the tool catalogue announces,
  \<^verbatim>\<open><tool_call> name: NAME arguments: BODY </tool_call>\<close>, with white space allowed where the
  pattern has \<^verbatim>\<open>\s*\<close>. It is well formed when the white space is white space, the name is a
  non-empty word and the body holds no closing delimiter. A document is a sequence of
  blocks, each behind some filler text, and a tail.
\<close>

record Block =
  after_open :: string
  after_key :: string
  block_name :: string
  after_name :: string
  body :: string

















lemma not_sublist_suffix_part: "\<not> sublist d (a @ b) \<Longrightarrow> \<not> sublist d b"
  by (simp add: sublist_append)

















text \<open>No attempt goes deeper than the text is long.\<close>

lemma matched_chars_le: "matched_chars l s \<le> length s"
  by (induction l s rule: matched_chars.induct) auto

lemma foldr_max_le: "\<forall>x \<in> set xs. x \<le> m \<Longrightarrow> b \<le> m \<Longrightarrow> foldr max xs b \<le> (m::nat)"
  by (induction xs) auto

lemma explored_subset: "set (explored f ks) \<subseteq> set ks"
  by (induction ks) (auto split: option.splits)

lemma quantifier_depth_le:
  assumes "\<And>k. k \<in> set (explored f ks) \<Longrightarrow> rx_depth as (drop k s) \<le> length (drop k s)"
    and "set ks \<subseteq> {k. k \<le> length (takeWhile p s)}" and "b \<le> length (takeWhile p s)"
  shows "foldr max (map (\<lambda>k. k + rx_depth as (drop k s)) (explored f ks)) b \<le> length s"
proof (rule foldr_max_le)
  have n: "length (takeWhile p s) \<le> length s"
    by (rule length_takeWhile_le)
  show "b \<le> length s" using assms(3) n by simp
  show "\<forall>x \<in> set (map (\<lambda>k. k + rx_depth as (drop k s)) (explored f ks)). x \<le> length s"
  proof
    fix x assume "x \<in> set (map (\<lambda>k. k + rx_depth as (drop k s)) (explored f ks))"
    then obtain k where e: "k \<in> set (explored f ks)" and x: "x = k + rx_depth as (drop k s)"
      by auto
    then have "k \<in> set ks"
      using explored_subset [of f ks] by auto
    then have "k \<le> length s" using assms(2) n by auto
    then show "x \<le> length s" using assms(1) [OF e] x by simp
  qed
qed

lemma rx_depth_le: "rx_depth rx s \<le> length s"
proof (induction rx s rule: rx_depth.induct)
  case (1 s)
  then show ?case by simp
next
  case (2 l as s)
  show ?case
  proof (cases "take (length l) s = l")
    case True
    then have "length (take (length l) s) = length l"
      by simp
    then have "length l \<le> length s"
      by simp
    then show ?thesis using 2 True by simp
  next
    case False
    then show ?thesis by (simp add: matched_chars_le)
  qed
next
  case (3 p lo as s)
  have "foldr max (map (\<lambda>k. k + rx_depth as (drop k s))
      (explored (\<lambda>k. rx_match as (drop k s)) (rev [lo ..< Suc (length (takeWhile p s))])))
      (length (takeWhile p s)) \<le> length s"
    by (rule quantifier_depth_le [where p = p]) (use 3 in \<open>auto simp del: upt_Suc\<close>)
  then show ?case by simp
next
  case (4 p lo as s)
  have "foldr max (map (\<lambda>k. k + rx_depth as (drop k s))
      (explored (\<lambda>k. rx_match as (drop k s)) [lo ..< Suc (length (takeWhile p s))]))
      (min lo (length (takeWhile p s))) \<le> length s"
    by (rule quantifier_depth_le [where p = p]) (use 4 in \<open>auto simp del: upt_Suc\<close>)
  then show ?case by simp
next
  case (5 a as s)
  then show ?case by simp
qed

lemma search_depth_le: "search_depth rx s \<le> length s"
proof (induction s)
  case Nil
  then show ?case using rx_depth_le [of rx "[]"] by simp
next
  case (Cons c s)
  then show ?case using rx_depth_le [of rx "c # s"] by (auto split: option.splits)
qed

lemma matches_depth_le: "matches_depth rx s \<le> length s"
proof (induction rx s rule: matches_depth.induct)
  case (1 rx s)
  show ?case
  proof (cases "regex_search rx s")
    case None
    then show ?thesis by (subst matches_depth.simps) (simp add: search_depth_le)
  next
    case (Some a)
    obtain m r where a: "a = (m, r)" by (cases a)
    show ?thesis
    proof (cases "sub_match m 0 = []")
      case True
      then show ?thesis using Some a by (subst matches_depth.simps) (simp add: search_depth_le)
    next
      case False
      then have "length r < length s"
        using Some a regex_search_shorter by blast
      moreover have "matches_depth rx r \<le> length r"
        using "1" Some a False by simp
      ultimately show ?thesis
        using Some a False by (subst matches_depth.simps) (simp add: search_depth_le)
    qed
  qed
qed

lemma groups_subset: "set (groups rx ps) \<subseteq> set ps"
  by (induction rx ps rule: groups.induct) auto

lemma piece_le_concat: "p \<in> set ps \<Longrightarrow> length p \<le> length (concat ps)"
  by (induction ps) auto

lemma regex_search_bounded:
  assumes "regex_search rx s = Some (m, r)" and "x \<in> set m"
  shows "length x \<le> length s"
proof -
  obtain pre ps where s: "s = pre @ concat ps @ r" and m: "m = concat ps # groups rx ps"
    using regex_search_sound [OF assms(1)] by blast
  have "length x \<le> length (concat ps)"
    using assms(2) m groups_subset [of rx ps] piece_le_concat [of x ps] by auto
  then show ?thesis using s by simp
qed

lemma regex_matches_bounded:
  "m \<in> set (regex_matches rx s) \<Longrightarrow> x \<in> set m \<Longrightarrow> length x \<le> length s"
proof (induction rx s rule: regex_matches.induct)
  case (1 rx s)
  show ?case
  proof (cases "regex_search rx s")
    case None
    then show ?thesis using "1.prems" by (simp add: regex_matches_none)
  next
    case (Some a)
    obtain m' r where a: "a = (m', r)" by (cases a)
    show ?thesis
    proof (cases "sub_match m' 0 = []")
      case True
      then have "regex_matches rx s = [m']"
        using Some a by (subst regex_matches.simps) simp
      then show ?thesis
        using "1.prems" regex_search_bounded [of rx s m' r x] Some a by simp
    next
      case False
      then have ms: "regex_matches rx s = m' # regex_matches rx r"
        using Some a by (subst regex_matches.simps) simp
      have r: "length r < length s"
        using Some a False regex_search_shorter by blast
      show ?thesis
      proof (cases "m = m'")
        case True
        then show ?thesis
          using "1.prems" regex_search_bounded [of rx s m' r x] Some a by simp
      next
        case False
        then have "m \<in> set (regex_matches rx r)" using "1.prems" ms by simp
        then have "length x \<le> length r"
          using "1.IH" Some a \<open>sub_match m' 0 \<noteq> []\<close> "1.prems"(2) by simp
        then show ?thesis using r by simp
      qed
    qed
  qed
qed

lemma sub_match_bounded:
  "m \<in> set (regex_matches rx s) \<Longrightarrow> length (sub_match m i) \<le> length s"
  using regex_matches_bounded [of m rx s "m ! i"] by (simp add: sub_match_def)

lemma parse_depth_le: "parse_depth response \<le> length response"
  unfolding parse_depth_def
proof (rule foldr_max_le)
  show "matches_depth tool_regex response \<le> length response"
    by (rule matches_depth_le)
  show "\<forall>x \<in> set (map (\<lambda>m. matches_depth arg_regex (sub_match m 2))
      (regex_matches tool_regex response)). x \<le> length response"
  proof
    fix x assume "x \<in> set (map (\<lambda>m. matches_depth arg_regex (sub_match m 2))
      (regex_matches tool_regex response))"
    then obtain m where m: "m \<in> set (regex_matches tool_regex response)"
      and x: "x = matches_depth arg_regex (sub_match m 2)"
      by auto
    have "x \<le> length (sub_match m 2)" unfolding x by (rule matches_depth_le)
    then show "x \<le> length response"
      using sub_match_bounded [OF m, of 2] by simp
  qed
qed


lemma parse_within_stack:
  "parse_depth response \<le> stack \<Longrightarrow>
     parse_tool_calls_on stack response = parse_tool_calls response"
  by (simp add: parse_tool_calls_on_def)































section \<open>The agent (include/simi/agent.hpp, src/core/agent.cpp)\<close>

text \<open>
  \<^verbatim>\<open>Agent::Config\<close>: the two limits of the loop are \<^verbatim>\<open>int\<close>s that
  \<^verbatim>\<open>AgentBuilder::with_max_iterations\<close> and the public \<^verbatim>\<open>Config\<close> accept without a check, so
  they may be zero or negative. The generation settings are constants that the agent hands
  to its engines unchanged; they are part of the engines below.
\<close>

record Config =
  max_iterations :: int
  max_consecutive_errors :: int
  system_prompt :: string

text \<open>
  The engines wrap an external inference pipeline, so they are parameters: whether the
  engine is loaded, what \<^verbatim>\<open>generate\<close> returns or throws, and the tokens the streaming
  pipeline hands to its callback. \<^verbatim>\<open>start_chat\<close> forwards to the pipeline.
\<close>

record 'x VLMEngine =
  vlm_is_loaded :: bool
  vlm_generate :: "string \<Rightarrow> string list \<Rightarrow> 'x World \<Rightarrow> (fault + string) \<times> 'x World"
  vlm_stream_tokens :: "string \<Rightarrow> string list \<Rightarrow> 'x World \<Rightarrow> (fault + string list) \<times> 'x World"
  vlm_start_chat :: "'x World \<Rightarrow> (fault + unit) \<times> 'x World"

record 'x LLMEngine =
  llm_is_loaded :: bool
  llm_generate :: "string \<Rightarrow> 'x World \<Rightarrow> (fault + string) \<times> 'x World"

text \<open>The callbacks are \<^verbatim>\<open>std::function\<close>s of the host: they may throw, and they may call
  \<^verbatim>\<open>Agent::stop\<close>.\<close>

type_synonym 'x StreamCallback = "string \<Rightarrow> 'x World \<Rightarrow> (fault + unit) \<times> 'x World"
type_synonym 'x ToolCallback = "ToolCall \<Rightarrow> ToolResult \<Rightarrow> 'x World \<Rightarrow> (fault + unit) \<times> 'x World"
type_synonym 'x StateCallback = "AgentState \<Rightarrow> string \<Rightarrow> 'x World \<Rightarrow> (fault + unit) \<times> 'x World"

text \<open>\<^verbatim>\<open>Agent::Impl\<close>, without \<^verbatim>\<open>stop_requested\<close>, which is in the world.\<close>

record 'x Agent =
  config :: Config
  vlm :: "'x VLMEngine option"
  llm :: "'x LLMEngine option"
  tools :: "'x ToolRegistry"
  history :: "Message list"
  state :: AgentState
  stream_callback :: "'x StreamCallback option"
  tool_callback :: "'x ToolCallback option"
  state_callback :: "'x StateCallback option"

definition set_state ::
  "AgentState \<Rightarrow> string \<Rightarrow> 'x Agent \<Rightarrow> 'x World \<Rightarrow> (fault + unit) \<times> 'x Agent \<times> 'x World" where
  "set_state new_state message a w =
     (case state_callback a of
        None \<Rightarrow> (Inr (), a\<lparr>state := new_state\<rparr>, w)
      | Some callback \<Rightarrow>
          (case callback new_state message w of (r, w') \<Rightarrow> (r, a\<lparr>state := new_state\<rparr>, w')))"

subsection \<open>The prompt\<close>

text \<open>
  \<^verbatim>\<open>ToolRegistry::format_tools_prompt\<close> walks the \<^verbatim>\<open>std::map\<close>, that is the tools in the
  order of their names (\<^verbatim>\<open>std::string\<close> compares bytes as unsigned values), and calls
  \<^verbatim>\<open>is_available\<close> on each, which may throw.
\<close>

fun string_less :: "string \<Rightarrow> string \<Rightarrow> bool" where
  "string_less [] [] = False"
| "string_less [] (d # t) = True"
| "string_less (c # s) [] = False"
| "string_less (c # s) (d # t) =
     ((of_char c :: nat) < of_char d \<or> (c = d \<and> string_less s t))"

fun insert_by_name :: "string \<times> 'a \<Rightarrow> (string \<times> 'a) list \<Rightarrow> (string \<times> 'a) list" where
  "insert_by_name e [] = [e]"
| "insert_by_name e (f # r) =
     (if string_less (fst e) (fst f) then e # f # r else f # insert_by_name e r)"

definition in_name_order :: "(string \<times> 'a) list \<Rightarrow> (string \<times> 'a) list" where
  "in_name_order entries = foldr insert_by_name entries []"

definition format_parameter :: "ToolParameter \<Rightarrow> string" where
  "format_parameter p =
     ''- `'' @ param_name p @ ''` ('' @ param_type p
     @ (if required p then '', required'' else [])
     @ ''): '' @ param_description p
     @ (case default_value p of None \<Rightarrow> [] | Some d \<Rightarrow> '' (default: '' @ d @ '')'')
     @ [CHR 0x0A]"

definition format_schema :: "ToolSchema \<Rightarrow> string" where
  "format_schema schema =
     ''### '' @ schema_name schema @ [CHR 0x0A]
     @ description schema @ [CHR 0x0A, CHR 0x0A]
     @ ''**Parameters:**'' @ [CHR 0x0A]
     @ concat (map format_parameter (parameters schema))
     @ [CHR 0x0A]"

fun format_tools :: "(string \<times> 'x Tool) list \<Rightarrow> 'x World \<Rightarrow> fault + string" where
  "format_tools [] w = Inr []"
| "format_tools ((n, tool) # rest) w =
     (case is_available tool w of
        Inl e \<Rightarrow> Inl e
      | Inr available \<Rightarrow>
          (case format_tools rest w of
             Inl e \<Rightarrow> Inl e
           | Inr r \<Rightarrow> Inr ((if available then format_schema (get_schema tool) else []) @ r)))"

definition format_tools_prompt :: "'x ToolRegistry \<Rightarrow> 'x World \<Rightarrow> fault + string" where
  "format_tools_prompt registry w =
     (case format_tools (in_name_order registry) w of
        Inl e \<Rightarrow> Inl e
      | Inr listed \<Rightarrow>
          Inr (''## Available Tools'' @ [CHR 0x0A, CHR 0x0A]
               @ ''You can use these tools by outputting a tool call in this format:''
               @ [CHR 0x0A] @ ''```'' @ [CHR 0x0A]
               @ ''<tool_call>'' @ [CHR 0x0A]
               @ ''name: tool_name'' @ [CHR 0x0A]
               @ ''arguments:'' @ [CHR 0x0A]
               @ ''  param1: value1'' @ [CHR 0x0A]
               @ ''  param2: value2'' @ [CHR 0x0A]
               @ ''</tool_call>'' @ [CHR 0x0A]
               @ ''```'' @ [CHR 0x0A, CHR 0x0A]
               @ listed))"

definition format_message :: "Message \<Rightarrow> string" where
  "format_message msg =
     (if role msg = User then
        ''<|im_start|>user'' @ [CHR 0x0A]
        @ concat (replicate (length (images msg)) ''<|vision_start|><|image_pad|><|vision_end|>'')
        @ content msg @ ''<|im_end|>'' @ [CHR 0x0A]
      else if role msg = Assistant then
        ''<|im_start|>assistant'' @ [CHR 0x0A] @ content msg @ ''<|im_end|>'' @ [CHR 0x0A]
      else if role msg = Tool then
        ''<|im_start|>tool'' @ [CHR 0x0A] @ content msg @ ''<|im_end|>'' @ [CHR 0x0A]
      else [])"

definition build_prompt :: "'x Agent \<Rightarrow> Message list \<Rightarrow> 'x World \<Rightarrow> fault + string" where
  "build_prompt a msgs w =
     (case format_tools_prompt (tools a) w of
        Inl e \<Rightarrow> Inl e
      | Inr catalog \<Rightarrow>
          Inr (''<|im_start|>system'' @ [CHR 0x0A]
               @ system_prompt (config a) @ [CHR 0x0A, CHR 0x0A]
               @ catalog
               @ ''<|im_end|>'' @ [CHR 0x0A]
               @ concat (map format_message msgs)
               @ ''<|im_start|>assistant'' @ [CHR 0x0A]))"

definition format_result :: "ToolCall \<times> ToolResult \<Rightarrow> string" where
  "format_result cr =
     (case cr of (call, result) \<Rightarrow>
        [CHR 0x0A] @ ''### '' @ name call @ '' (id: '' @ id_call call @ '')'' @ [CHR 0x0A]
        @ (if success result then
             ''Status: Success'' @ [CHR 0x0A]
             @ ''Output:'' @ [CHR 0x0A] @ tool_output result @ [CHR 0x0A]
           else
             ''Status: Failed'' @ [CHR 0x0A]
             @ ''Error: '' @ (case error result of None \<Rightarrow> ''Unknown error'' | Some e \<Rightarrow> e)
             @ [CHR 0x0A]
             @ (if tool_output result \<noteq> [] then
                  ''Output:'' @ [CHR 0x0A] @ tool_output result @ [CHR 0x0A]
                else [])))"

definition format_tool_results :: "(ToolCall \<times> ToolResult) list \<Rightarrow> string" where
  "format_tool_results results =
     ''Tool Results:'' @ [CHR 0x0A] @ concat (map format_result results)"

subsection \<open>One model call\<close>

text \<open>
  With a stream callback set, the loop collects the tokens of \<^verbatim>\<open>generate_stream\<close> and hands
  each to the callback. The callback runs inside the \<^verbatim>\<open>try\<close> block of
  \<^verbatim>\<open>VLMEngine::generate_stream\<close>, which rethrows a \<^verbatim>\<open>std::exception\<close> as a
  \<^verbatim>\<open>std::runtime_error\<close> with a prefix. Without a loaded engine the loop throws.
\<close>

fun stream_tokens ::
  "'x StreamCallback \<Rightarrow> string list \<Rightarrow> string \<Rightarrow> 'x World \<Rightarrow> (fault + string) \<times> 'x World" where
  "stream_tokens callback [] oss w = (Inr oss, w)"
| "stream_tokens callback (token # rest) oss w =
     (case callback token w of
        (Inl (StdException msg), w') \<Rightarrow>
          (Inl (StdException (''Streaming generation failed: '' @ msg)), w')
      | (Inl e, w') \<Rightarrow> (Inl e, w')
      | (Inr u, w') \<Rightarrow> stream_tokens callback rest (oss @ token) w')"

definition generate_response ::
  "'x Agent \<Rightarrow> string \<Rightarrow> string list \<Rightarrow> 'x World \<Rightarrow> (fault + string) \<times> 'x World" where
  "generate_response a prompt imgs w =
     (case (case vlm a of Some v \<Rightarrow> if vlm_is_loaded v then Some v else None | None \<Rightarrow> None) of
        Some v \<Rightarrow>
          (case stream_callback a of
             Some callback \<Rightarrow>
               (case vlm_stream_tokens v prompt imgs w of
                  (Inl e, w') \<Rightarrow> (Inl e, w')
                | (Inr tokens, w') \<Rightarrow> stream_tokens callback tokens [] w')
           | None \<Rightarrow> vlm_generate v prompt imgs w)
      | None \<Rightarrow>
          (case (case llm a of Some l \<Rightarrow> if llm_is_loaded l then Some l else None | None \<Rightarrow> None) of
             Some l \<Rightarrow> llm_generate l prompt w
           | None \<Rightarrow> (Inl (StdException ''No model loaded''), w)))"

subsection \<open>The loop\<close>

text \<open>
  The \<^verbatim>\<open>for\<close> loop over the calls of one response. It carries the counter
  \<^verbatim>\<open>consecutive_errors\<close>, the stream \<^verbatim>\<open>final_response\<close> and the vector \<^verbatim>\<open>results\<close>. Its two
  \<^verbatim>\<open>break\<close>s leave this loop, and nothing else: the statements behind it in the body of
  the \<^verbatim>\<open>while\<close> loop run in every case. The counter is an \<^verbatim>\<open>int\<close> that grows by one for each
  failed dispatch; it is counted here without a bound.
\<close>

fun run_calls ::
  "'x Agent \<Rightarrow> ToolCall list \<Rightarrow> int \<Rightarrow> string \<Rightarrow> (ToolCall \<times> ToolResult) list \<Rightarrow> 'x World \<Rightarrow>
     (fault + int \<times> string \<times> (ToolCall \<times> ToolResult) list) \<times> 'x World" where
  "run_calls a [] consecutive_errors final_response results w =
     (Inr (consecutive_errors, final_response, results), w)"
| "run_calls a (call # rest) consecutive_errors final_response results w =
     (if stop_requested w then (Inr (consecutive_errors, final_response, results), w)
      else
        (case registry_execute (tools a) call w of
           (Inl e, w1) \<Rightarrow> (Inl e, w1)
         | (Inr result, w1) \<Rightarrow>
             (case (case tool_callback a of
                      None \<Rightarrow> (Inr (), w1)
                    | Some callback \<Rightarrow> callback call result w1) of
                (Inl e, w2) \<Rightarrow> (Inl e, w2)
              | (Inr u, w2) \<Rightarrow>
                  if \<not> success result then
                    (if max_consecutive_errors (config a) \<le> consecutive_errors + 1 then
                       (Inr (consecutive_errors + 1,
                             final_response @ ''Too many consecutive errors. Stopping.''
                             @ [CHR 0x0A] @ ''Last error: ''
                             @ (case error result of None \<Rightarrow> ''Unknown error'' | Some e \<Rightarrow> e),
                             results @ [(call, result)]), w2)
                     else run_calls a rest (consecutive_errors + 1) final_response
                            (results @ [(call, result)]) w2)
                  else run_calls a rest 0 final_response (results @ [(call, result)]) w2)))"

text \<open>
  The \<^verbatim>\<open>while\<close> loop. It ends by its condition, by the \<^verbatim>\<open>break\<close> behind a response without
  tool calls (\<open>True\<close> in the result), or with an exception; \<open>iterations\<close> is bounded by
  \<^verbatim>\<open>max_iterations\<close>, so it does not overflow.
\<close>

lemma set_state_config:
  "set_state s m a w = (r, a', w') \<Longrightarrow> config a' = config a"
  by (auto simp: set_state_def split: option.splits prod.splits)

function react_iterate ::
  "'x Agent \<Rightarrow> string list \<Rightarrow> int \<Rightarrow> int \<Rightarrow> string \<Rightarrow> 'x World \<Rightarrow>
     (fault + int \<times> string \<times> bool) \<times> 'x Agent \<times> 'x World" where
  "react_iterate a imgs iterations consecutive_errors final_response w =
     (if iterations < max_iterations (config a) \<and> \<not> stop_requested w then
        (case build_prompt a (history a) w of
           Inl e \<Rightarrow> (Inl e, a, w)
         | Inr prompt \<Rightarrow>
             (case generate_response a prompt imgs w of
                (Inl e, w1) \<Rightarrow> (Inl e, a, w1)
              | (Inr response, w1) \<Rightarrow>
                  (case parse_tool_calls_on (stack_limit w1) response of
                     Inl e \<Rightarrow> (Inl e, a, w1)
                   | Inr tool_calls \<Rightarrow>
                       if tool_calls = [] then
                         (Inr (iterations + 1, final_response @ response, True), a, w1)
                       else
                         (case set_state CallingTool ''Executing tools...'' a w1 of
                            (Inl e, a1, w2) \<Rightarrow> (Inl e, a1, w2)
                          | (Inr u, a1, w2) \<Rightarrow>
                              (case run_calls a1 tool_calls consecutive_errors final_response [] w2 of
                                 (Inl e, w3) \<Rightarrow> (Inl e, a1, w3)
                               | (Inr (errors, final, results), w3) \<Rightarrow>
                                   (case set_state Thinking ''Processing tool results...''
                                           (a1\<lparr>history := history a1
                                               @ [tool_result_msg ''tools'' []
                                                    (format_tool_results results)]\<rparr>) w3 of
                                      (Inl e, a2, w4) \<Rightarrow> (Inl e, a2, w4)
                                    | (Inr u, a2, w4) \<Rightarrow>
                                        react_iterate a2 imgs (iterations + 1) errors final w4))))))
      else (Inr (iterations, final_response, False), a, w))"
  by pat_completeness auto
termination
proof (relation "measure (\<lambda>(a, imgs, iterations, errs, final, w).
    nat (max_iterations (config a) - iterations))", goal_cases)
  case 1
  show ?case by simp
next
  case 2
  then show ?case
    by (auto dest!: set_state_config [OF sym])
qed


declare react_iterate.simps [simp del]

text \<open>\<^verbatim>\<open>Agent::react_loop\<close>: the loop, and the marker behind it. The parameter
  \<^verbatim>\<open>user_message\<close> is not used by the source either.\<close>

definition react_loop ::
  "'x Agent \<Rightarrow> string \<Rightarrow> string list \<Rightarrow> 'x World \<Rightarrow> (fault + string) \<times> 'x Agent \<times> 'x World" where
  "react_loop a user_message imgs w =
     (case react_iterate a imgs 0 0 [] w of
        (Inl e, a', w') \<Rightarrow> (Inl e, a', w')
      | (Inr (iterations, final_response, answered), a', w') \<Rightarrow>
          (Inr (if max_iterations (config a') \<le> iterations
                then final_response @ [CHR 0x0A] @ ''[Reached maximum iterations]''
                else final_response), a', w'))"

definition process ::
  "'x Agent \<Rightarrow> string \<Rightarrow> string list \<Rightarrow> 'x World \<Rightarrow> (fault + string) \<times> 'x Agent \<times> 'x World" where
  "process a message imgs w =
     (case set_state Thinking ''Processing message...'' a (w\<lparr>stop_requested := False\<rparr>) of
        (Inl e, a1, w1) \<Rightarrow> (Inl e, a1, w1)
      | (Inr u, a1, w1) \<Rightarrow>
          (case react_loop (a1\<lparr>history := history a1 @ [user_msg message imgs]\<rparr>)
                  message imgs w1 of
             (Inl e, a2, w2) \<Rightarrow> (Inl e, a2, w2)
           | (Inr response, a2, w2) \<Rightarrow>
               (case set_state Done [] (a2\<lparr>history := history a2 @ [assistant_msg response]\<rparr>)
                       w2 of
                  (Inl e, a3, w3) \<Rightarrow> (Inl e, a3, w3)
                | (Inr u, a3, w3) \<Rightarrow> (Inr response, a3, w3))))"

text \<open>The other members that write to the agent. \<^verbatim>\<open>reset\<close> stores the state without the
  callback; the pipeline's \<^verbatim>\<open>start_chat\<close> runs last.\<close>

definition reset :: "'x Agent \<Rightarrow> 'x World \<Rightarrow> (fault + unit) \<times> 'x Agent \<times> 'x World" where
  "reset a w =
     (case vlm a of
        None \<Rightarrow> (Inr (), a\<lparr>history := [], state := Idle\<rparr>, w\<lparr>stop_requested := False\<rparr>)
      | Some v \<Rightarrow>
          (case vlm_start_chat v (w\<lparr>stop_requested := False\<rparr>) of
             (r, w') \<Rightarrow> (r, a\<lparr>history := [], state := Idle\<rparr>, w')))"

definition agent_add_message :: "'x Agent \<Rightarrow> Message \<Rightarrow> 'x Agent" where
  "agent_add_message a message = a\<lparr>history := history a @ [message]\<rparr>"

definition stop :: "'x World \<Rightarrow> 'x World" where
  "stop w = w\<lparr>stop_requested := True\<rparr>"

definition set_stream_callback :: "'x Agent \<Rightarrow> 'x StreamCallback option \<Rightarrow> 'x Agent" where
  "set_stream_callback a callback = a\<lparr>stream_callback := callback\<rparr>"

definition set_tool_callback :: "'x Agent \<Rightarrow> 'x ToolCallback option \<Rightarrow> 'x Agent" where
  "set_tool_callback a callback = a\<lparr>tool_callback := callback\<rparr>"

definition set_state_callback :: "'x Agent \<Rightarrow> 'x StateCallback option \<Rightarrow> 'x Agent" where
  "set_state_callback a callback = a\<lparr>state_callback := callback\<rparr>"

subsection \<open>Steps of the loop\<close>

text \<open>A dispatch that succeeds sets the counter to zero and the loop over the calls goes
  on; a failure that reaches the limit writes the diagnostic and ends the loop over the
  calls, without dispatching the rest of them.\<close>

lemma success_resets_counter:
  assumes "\<not> stop_requested w" and "registry_execute (tools a) call w = (Inr result, w1)"
    and "(case tool_callback a of None \<Rightarrow> (Inr (), w1) | Some callback \<Rightarrow> callback call result w1)
           = (Inr (), w2)"
    and "success result"
  shows "run_calls a (call # rest) consecutive_errors final_response results w
     = run_calls a rest 0 final_response (results @ [(call, result)]) w2"
  using assms by simp

lemma error_limit_ends_batch:
  assumes "\<not> stop_requested w" and "registry_execute (tools a) call w = (Inr result, w1)"
    and "(case tool_callback a of None \<Rightarrow> (Inr (), w1) | Some callback \<Rightarrow> callback call result w1)
           = (Inr (), w2)"
    and "\<not> success result" and "max_consecutive_errors (config a) \<le> consecutive_errors + 1"
  shows "run_calls a (call # rest) consecutive_errors final_response results w
     = (Inr (consecutive_errors + 1,
             final_response @ ''Too many consecutive errors. Stopping.'' @ [CHR 0x0A]
             @ ''Last error: '' @ (case error result of None \<Rightarrow> ''Unknown error'' | Some e \<Rightarrow> e),
             results @ [(call, result)]), w2)"
  using assms by simp

text \<open>With \<^verbatim>\<open>max_iterations = 1\<close> and a first response that holds a tool call, the loop makes
  one model call and one batch of dispatches, and the returned text ends with the marker of
  the iteration limit.\<close>

lemma one_iteration_at_limit_one:
  assumes "max_iterations (config a) = 1" and "\<not> stop_requested w"
    and "build_prompt a (history a) w = Inr prompt"
    and "generate_response a prompt imgs w = (Inr response, w1)"
    and "parse_tool_calls_on (stack_limit w1) response = Inr tool_calls" and "tool_calls \<noteq> []"
    and "set_state CallingTool ''Executing tools...'' a w1 = (Inr (), a1, w2)"
    and "run_calls a1 tool_calls 0 [] [] w2 = (Inr (errors, final, results), w3)"
    and "set_state Thinking ''Processing tool results...''
           (a1\<lparr>history := history a1
               @ [tool_result_msg ''tools'' [] (format_tool_results results)]\<rparr>) w3
         = (Inr (), a2, w4)"
  shows "react_loop a message imgs w
     = (Inr (final @ [CHR 0x0A] @ ''[Reached maximum iterations]''), a2, w4)"
proof -
  have c: "config a2 = config a"
    using set_state_config [OF assms(9)] set_state_config [OF assms(7)] by simp
  have "react_iterate a2 imgs 1 errors final w4 = (Inr (1, final, False), a2, w4)"
    using c assms(1) by (subst react_iterate.simps) simp
  then have "react_iterate a imgs 0 0 [] w = (Inr (1, final, False), a2, w4)"
    using assms by (subst react_iterate.simps) simp
  then show ?thesis
    using c assms(1) by (simp add: react_loop_def)
qed

subsection \<open>What the loop does to the history\<close>

lemma set_state_agent:
  "set_state s m a w = (r, a', w') \<Longrightarrow> a' = a\<lparr>state := s\<rparr>"
  by (auto simp: set_state_def split: option.splits prod.splits)

lemma react_iterate_history:
  "react_iterate a imgs i errs final w = (r, a', w') \<Longrightarrow>
     \<exists>turns. history a' = history a @ turns \<and> list_all (\<lambda>t. role t = Tool) turns
       \<and> config a' = config a
       \<and> (\<forall>n f answered. r = Inr (n, f, answered) \<longrightarrow>
             int (length turns) = n - i - (if answered then 1 else 0))"
proof (induction a imgs i errs final w arbitrary: r a' w' rule: react_iterate.induct)
  case (1 a imgs i errs final w)
  show ?case
  proof (cases "i < max_iterations (config a) \<and> \<not> stop_requested w")
    case False
    have "react_iterate a imgs i errs final w = (Inr (i, final, False), a, w)"
      by (subst react_iterate.simps) (rule if_not_P [OF False])
    then have "r = Inr (i, final, False)" and "a' = a"
      using "1.prems" by simp_all
    then show ?thesis by simp
  next
    case True
    show ?thesis
    proof (cases "build_prompt a (history a) w")
      case (Inl e)
      then have "a' = a" and "r = Inl e"
        using "1.prems" True by (simp_all add: react_iterate.simps [of a imgs i errs final w])
      then show ?thesis by simp
    next
      case (Inr prompt)
      obtain g w1 where gen: "generate_response a prompt imgs w = (g, w1)"
        by (cases "generate_response a prompt imgs w")
      show ?thesis
      proof (cases g)
        case (Inl e)
        then have "a' = a" and "r = Inl e"
          using "1.prems" True Inr gen
          by (simp_all add: react_iterate.simps [of a imgs i errs final w])
        then show ?thesis by simp
      next
        case response: (Inr response)
        show ?thesis
        proof (cases "parse_tool_calls_on (stack_limit w1) response")
          case (Inl e)
          then have "a' = a" and "r = Inl e"
            using "1.prems" True Inr gen response
            by (simp_all add: react_iterate.simps [of a imgs i errs final w])
          then show ?thesis by simp
        next
          case calls: (Inr tool_calls)
          show ?thesis
          proof (cases "tool_calls = []")
            case True
            then have "a' = a" and "r = Inr (i + 1, final @ response, True)"
              using "1.prems" \<open>i < max_iterations (config a) \<and> \<not> stop_requested w\<close> Inr gen
                response calls
              by (simp_all add: react_iterate.simps [of a imgs i errs final w])
            then show ?thesis by simp
          next
            case nonempty: False
            obtain s1 a1 w2 where st1:
              "set_state CallingTool ''Executing tools...'' a w1 = (s1, a1, w2)"
              by (cases "set_state CallingTool ''Executing tools...'' a w1")
            have a1: "a1 = a\<lparr>state := CallingTool\<rparr>"
              using st1 by (rule set_state_agent)
            show ?thesis
            proof (cases s1)
              case (Inl e)
              then have "a' = a1" and "r = Inl e"
                using "1.prems" True Inr gen response calls nonempty st1
                by (simp_all add: react_iterate.simps [of a imgs i errs final w])
              then show ?thesis using a1 by simp
            next
              case u1: (Inr u1)
              obtain rc w3 where run: "run_calls a1 tool_calls errs final [] w2 = (rc, w3)"
                by (cases "run_calls a1 tool_calls errs final [] w2")
              show ?thesis
              proof (cases rc)
                case (Inl e)
                then have "a' = a1" and "r = Inl e"
                  using "1.prems" True Inr gen response calls nonempty st1 u1 run
                  by (simp_all add: react_iterate.simps [of a imgs i errs final w])
                then show ?thesis using a1 by simp
              next
                case rc: (Inr triple)
                obtain errors final' results where triple: "triple = (errors, final', results)"
                  by (cases triple)
                let ?turn = "tool_result_msg ''tools'' [] (format_tool_results results)"
                obtain s2 a2 w4 where st2:
                  "set_state Thinking ''Processing tool results...''
                     (a1\<lparr>history := history a1 @ [?turn]\<rparr>) w3 = (s2, a2, w4)"
                  by (cases "set_state Thinking ''Processing tool results...''
                     (a1\<lparr>history := history a1 @ [?turn]\<rparr>) w3")
                have a2: "a2 = a1\<lparr>history := history a1 @ [?turn], state := Thinking\<rparr>"
                  using set_state_agent [OF st2] by simp
                have h2: "history a2 = history a @ [?turn]" and c2: "config a2 = config a"
                  using a1 a2 by simp_all
                have tool: "role ?turn = Tool"
                  by (simp add: tool_result_msg_def)
                show ?thesis
                proof (cases s2)
                  case (Inl e)
                  then have "a' = a2" and "r = Inl e"
                    using "1.prems" True Inr gen response calls nonempty st1 u1 run rc triple st2
                    by (simp_all add: react_iterate.simps [of a imgs i errs final w])
                  then show ?thesis using h2 c2 tool by simp
                next
                  case u2: (Inr u2)
                  have next_step: "react_iterate a2 imgs (i + 1) errors final' w4 = (r, a', w')"
                    using "1.prems" True Inr gen response calls nonempty st1 u1 run rc triple st2
                      u2
                    by (simp add: react_iterate.simps [of a imgs i errs final w])
                  have "\<exists>turns. history a' = history a2 @ turns
                      \<and> list_all (\<lambda>t. role t = Tool) turns \<and> config a' = config a2
                      \<and> (\<forall>n f answered. r = Inr (n, f, answered) \<longrightarrow>
                            int (length turns) = n - (i + 1) - (if answered then 1 else 0))"
                    using True Inr gen [symmetric] response calls nonempty st1 [symmetric] u1
                      run [symmetric] rc triple st2 [symmetric] u2 next_step
                    by (intro "1.IH") auto
                  then obtain turns where t: "history a' = history a2 @ turns"
                    "list_all (\<lambda>t. role t = Tool) turns" "config a' = config a2"
                    "\<forall>n f answered. r = Inr (n, f, answered) \<longrightarrow>
                            int (length turns) = n - (i + 1) - (if answered then 1 else 0)"
                    by blast
                  have "history a' = history a @ (?turn # turns)"
                    using t(1) h2 by simp
                  moreover have "list_all (\<lambda>t. role t = Tool) (?turn # turns)"
                    using t(2) tool by simp
                  moreover have "config a' = config a"
                    using t(3) c2 by simp
                  moreover have "\<forall>n f answered. r = Inr (n, f, answered) \<longrightarrow>
                      int (length (?turn # turns)) = n - i - (if answered then 1 else 0)"
                    using t(4) by auto
                  ultimately show ?thesis by blast
                qed
              qed
            qed
          qed
        qed
      qed
    qed
  qed
qed


lemma process_prefix:
  assumes "process a message imgs w = (r, a', w')"
  shows "prefix (history a) (history a')"
proof -
  obtain s0 a1 w1 where st0:
    "set_state Thinking ''Processing message...'' a (w\<lparr>stop_requested := False\<rparr>) = (s0, a1, w1)"
    by (cases "set_state Thinking ''Processing message...'' a (w\<lparr>stop_requested := False\<rparr>)")
  have a1: "a1 = a\<lparr>state := Thinking\<rparr>"
    using st0 by (rule set_state_agent)
  show ?thesis
  proof (cases s0)
    case (Inl e)
    then have "a' = a1"
      using assms st0 by (simp add: process_def)
    then show ?thesis using a1 by simp
  next
    case u0: (Inr u0)
    let ?a = "a1\<lparr>history := history a1 @ [user_msg message imgs]\<rparr>"
    obtain ri a2 w2 where it: "react_iterate ?a imgs 0 0 [] w1 = (ri, a2, w2)"
      by (cases "react_iterate ?a imgs 0 0 [] w1")
    obtain turns where h2: "history a2 = history ?a @ turns"
      using react_iterate_history [OF it] by blast
    show ?thesis
    proof (cases ri)
      case (Inl e)
      then have "a' = a2"
        using assms st0 u0 it by (simp add: process_def react_loop_def)
      then show ?thesis using h2 a1 by simp
    next
      case (Inr triple)
      obtain n final answered where triple: "triple = (n, final, answered)"
        by (cases triple)
      define response where "response =
        (if max_iterations (config a2) \<le> n
         then final @ [CHR 0x0A] @ ''[Reached maximum iterations]'' else final)"
      obtain s3 a3 w3 where st3:
        "set_state Done [] (a2\<lparr>history := history a2 @ [assistant_msg response]\<rparr>) w2
           = (s3, a3, w3)"
        by (cases "set_state Done [] (a2\<lparr>history := history a2 @ [assistant_msg response]\<rparr>) w2")
      have a3: "history a3 = history a2 @ [assistant_msg response]"
        using set_state_agent [OF st3] by simp
      have "a' = a3"
        using assms st0 u0 it Inr triple st3
        by (cases s3) (simp_all add: process_def react_loop_def response_def)
      then show ?thesis using a3 h2 a1 by simp
    qed
  qed
qed

lemma process_returns_history:
  assumes "process a message imgs w = (Inr response, a', w')"
  shows "\<exists>turns n final answered a1 w1 a2 w2.
     set_state Thinking ''Processing message...'' a (w\<lparr>stop_requested := False\<rparr>)
       = (Inr (), a1, w1)
     \<and> react_iterate (a1\<lparr>history := history a1 @ [user_msg message imgs]\<rparr>) imgs 0 0 [] w1
       = (Inr (n, final, answered), a2, w2)
     \<and> history a' = history a @ [user_msg message imgs] @ turns @ [assistant_msg response]
     \<and> list_all (\<lambda>t. role t = Tool) turns
     \<and> int (length turns) = n - (if answered then 1 else 0)"
proof -
  obtain s0 a1 w1 where st0:
    "set_state Thinking ''Processing message...'' a (w\<lparr>stop_requested := False\<rparr>) = (s0, a1, w1)"
    by (cases "set_state Thinking ''Processing message...'' a (w\<lparr>stop_requested := False\<rparr>)")
  have a1: "a1 = a\<lparr>state := Thinking\<rparr>"
    using st0 by (rule set_state_agent)
  have u0: "s0 = Inr ()"
    using assms st0 by (cases s0) (simp_all add: process_def)
  let ?a = "a1\<lparr>history := history a1 @ [user_msg message imgs]\<rparr>"
  obtain ri a2 w2 where it: "react_iterate ?a imgs 0 0 [] w1 = (ri, a2, w2)"
    by (cases "react_iterate ?a imgs 0 0 [] w1")
  obtain triple where ri: "ri = Inr triple"
    using assms st0 u0 it by (cases ri) (simp_all add: process_def react_loop_def)
  obtain n final answered where triple: "triple = (n, final, answered)"
    by (cases triple)
  obtain turns where turns: "history a2 = history ?a @ turns"
    "list_all (\<lambda>t. role t = Tool) turns"
    "int (length turns) = n - 0 - (if answered then 1 else 0)"
    using react_iterate_history [OF it] ri triple by blast
  define answer where "answer =
    (if max_iterations (config a2) \<le> n
     then final @ [CHR 0x0A] @ ''[Reached maximum iterations]'' else final)"
  obtain s3 a3 w3 where st3:
    "set_state Done [] (a2\<lparr>history := history a2 @ [assistant_msg answer]\<rparr>) w2 = (s3, a3, w3)"
    by (cases "set_state Done [] (a2\<lparr>history := history a2 @ [assistant_msg answer]\<rparr>) w2")
  have a3: "history a3 = history a2 @ [assistant_msg answer]"
    using set_state_agent [OF st3] by simp
  have "a' = a3 \<and> response = answer"
    using assms st0 u0 it ri triple st3
    by (cases s3) (simp_all add: process_def react_loop_def answer_def)
  then have "history a' = history a @ [user_msg message imgs] @ turns @ [assistant_msg response]"
    using a3 turns(1) a1 by simp
  moreover have "react_iterate ?a imgs 0 0 [] w1 = (Inr (n, final, answered), a2, w2)"
    using it ri triple by simp
  moreover have "set_state Thinking ''Processing message...'' a (w\<lparr>stop_requested := False\<rparr>)
       = (Inr (), a1, w1)"
    using st0 u0 by simp
  ultimately show ?thesis
    using turns(2,3) by (intro exI [of _ turns] exI [of _ n] exI [of _ final]
        exI [of _ answered] exI [of _ a1] exI [of _ w1] exI [of _ a2] exI [of _ w2]) simp
qed

lemma reset_history:
  "reset a w = (r, a', w') \<Longrightarrow> history a' = []"
  by (auto simp: reset_def split: option.splits prod.splits)


section \<open>The error limit\<close>

definition missing_call_response :: string where
  "missing_call_response =
     ''<tool_call>'' @ [CHR 0x0A] @ ''name: missing'' @ [CHR 0x0A] @ ''arguments:'' @ [CHR 0x0A]
     @ ''</tool_call>''"

definition missing_call :: ToolCall where
  "missing_call = \<lparr>id_call = ''call_0'', name = ''missing'', arguments = Map.empty\<rparr>"

lemma parse_missing_call:
  "parse_tool_calls_on 30000 missing_call_response = Inr [missing_call]"
proof -
  have "parse_depth missing_call_response \<le> 30000"
    using parse_depth_le [of missing_call_response] by (simp add: missing_call_response_def)
  moreover have "parse_tool_calls missing_call_response = Inr [missing_call]"
    by (simp add: parse_tool_calls_def regex_matches.simps tool_regex_def rx_match.simps
      missing_call_response_def missing_call_def
      is_space_def word_char_def is_digit_def any_char_def sub_match_def arg_regex_def
      not_line_end_def trim_value_def erase_def find_first_not_of_def find_last_not_of_def
      trim_chars_def npos_def put_int_def decimal.simps digit_char_def)
  ultimately show ?thesis
    by (simp add: parse_within_stack)
qed

text \<open>A backend that asks for the tool \<^verbatim>\<open>missing\<close> in every response, an agent without
  tools, and a world that counts the model calls and the dispatches (through the tool
  callback).\<close>

definition stubborn_llm :: "(nat \<times> nat) LLMEngine" where
  "stubborn_llm =
     \<lparr>llm_is_loaded = True,
      llm_generate = (\<lambda>prompt w.
        (Inr missing_call_response, w\<lparr>outside := (Suc (fst (outside w)), snd (outside w))\<rparr>))\<rparr>"

definition count_dispatch :: "(nat \<times> nat) ToolCallback" where
  "count_dispatch call result w =
     (Inr (), w\<lparr>outside := (fst (outside w), Suc (snd (outside w)))\<rparr>)"

definition stubborn_agent :: "(nat \<times> nat) Agent" where
  "stubborn_agent =
     \<lparr>config = \<lparr>max_iterations = 5, max_consecutive_errors = 3, system_prompt = []\<rparr>,
      vlm = None, llm = Some stubborn_llm, tools = [], history = [], state = Idle,
      stream_callback = None, tool_callback = Some count_dispatch, state_callback = None\<rparr>"

definition fresh_world :: "(nat \<times> nat) World" where
  "fresh_world = \<lparr>stop_requested = False, stack_limit = 30000, outside = (0, 0)\<rparr>"

definition too_many_errors :: string where
  "too_many_errors =
     ''Too many consecutive errors. Stopping.'' @ [CHR 0x0A]
     @ ''Last error: Unknown tool: missing''"


lemma parse_plain_answer:
  "parse_tool_calls_on 30000 ''All done.'' = Inr []"
proof -
  have "parse_depth ''All done.'' \<le> 30000"
    using parse_depth_le [of "''All done.''"] by simp
  moreover have "parse_tool_calls ''All done.'' = Inr []"
    by (rule parse_nothing_without_delimiters) (simp add: sublist_code)
  ultimately show ?thesis
    by (simp add: parse_within_stack)
qed

definition unknown_missing :: ToolResult where
  "unknown_missing =
     \<lparr>call_id = ''call_0'', success = False, tool_output = [],
      error = Some ''Unknown tool: missing''\<rparr>"

definition missing_turn :: Message where
  "missing_turn = tool_result_msg ''tools'' [] (format_tool_results [(missing_call, unknown_missing)])"

text \<open>
  C1 fails on the code. With \<^verbatim>\<open>max_consecutive_errors = 3\<close>, \<^verbatim>\<open>max_iterations = 5\<close> and a backend
  that asks for an unregistered tool in every response, the third failed dispatch writes the
  diagnostic and leaves the \<^verbatim>\<open>for\<close> loop, and the \<^verbatim>\<open>while\<close> loop goes on: the model is called
  five times and five tool calls are dispatched, each later failure writes the diagnostic
  again, and the loop ends at the iteration limit.
\<close>

theorem C1_loop_continues_after_error_limit:
  "max_consecutive_errors (config stubborn_agent) = 3
   \<and> process stubborn_agent ''go'' [] fresh_world
     = (Inr (too_many_errors @ too_many_errors @ too_many_errors
             @ [CHR 0x0A] @ ''[Reached maximum iterations]''),
        stubborn_agent
          \<lparr>history := [user_msg ''go'' [], missing_turn, missing_turn, missing_turn,
                       missing_turn, missing_turn,
                       assistant_msg (too_many_errors @ too_many_errors @ too_many_errors
                                      @ [CHR 0x0A] @ ''[Reached maximum iterations]'')],
           state := Done\<rparr>,
        fresh_world\<lparr>outside := (5, 5)\<rparr>)"
  by (simp add: process_def react_loop_def react_iterate.simps set_state_def stubborn_agent_def
      fresh_world_def build_prompt_def format_tools_prompt_def in_name_order_def
      generate_response_def stubborn_llm_def parse_missing_call missing_call_def
      registry_execute_def get_tool_def count_dispatch_def too_many_errors_def
      missing_turn_def unknown_missing_def)

section \<open>The markers of the returned text\<close>

text \<open>A backend that asks for the unregistered tool three times and then answers.\<close>

definition relenting_llm :: "(nat \<times> nat) LLMEngine" where
  "relenting_llm =
     \<lparr>llm_is_loaded = True,
      llm_generate = (\<lambda>prompt w.
        (Inr (if fst (outside w) < 3 then missing_call_response else ''All done.''),
         w\<lparr>outside := (Suc (fst (outside w)), snd (outside w))\<rparr>))\<rparr>"

definition relenting_agent :: "(nat \<times> nat) Agent" where
  "relenting_agent =
     \<lparr>config = \<lparr>max_iterations = 50, max_consecutive_errors = 3, system_prompt = []\<rparr>,
      vlm = None, llm = Some relenting_llm, tools = [], history = [], state = Idle,
      stream_callback = None, tool_callback = Some count_dispatch, state_callback = None\<rparr>"

text \<open>
  C7 fails on the code, by the defect of C1: the error limit does not end the loop. With the
  default limits and a backend whose first three responses ask for an unregistered tool and
  whose fourth is a plain answer, the diagnostic of the error limit is written after the
  third failure, the model is called a fourth time, and the returned text is the diagnostic
  followed by the answer: no marker is at its end.
\<close>

theorem C7_error_limit_marker_not_trailing:
  "process relenting_agent ''go'' [] fresh_world
     = (Inr (too_many_errors @ ''All done.''),
        relenting_agent
          \<lparr>history := [user_msg ''go'' [], missing_turn, missing_turn, missing_turn,
                       assistant_msg (too_many_errors @ ''All done.'')],
           state := Done\<rparr>,
        fresh_world\<lparr>outside := (4, 3)\<rparr>)"
  by (simp add: process_def react_loop_def react_iterate.simps set_state_def relenting_agent_def
      fresh_world_def build_prompt_def format_tools_prompt_def in_name_order_def
      generate_response_def relenting_llm_def parse_missing_call parse_plain_answer
      missing_call_def registry_execute_def get_tool_def count_dispatch_def
      too_many_errors_def missing_turn_def unknown_missing_def)

section \<open>No model loaded\<close>

text \<open>An agent without engines, tools and callbacks; a state callback that asks to stop;
  the tool whose availability check throws is \<open>unchecked_tool\<close>.\<close>

definition bare_agent :: "int \<Rightarrow> unit Agent" where
  "bare_agent limit =
     \<lparr>config = \<lparr>max_iterations = limit, max_consecutive_errors = 3, system_prompt = []\<rparr>,
      vlm = None, llm = None, tools = [], history = [], state = Idle,
      stream_callback = None, tool_callback = None, state_callback = None\<rparr>"

definition stop_on_state :: "unit StateCallback" where
  "stop_on_state new_state message w = (Inr (), stop w)"

text \<open>
  C9, as stated, fails when the body of the loop is not entered, and when the prompt cannot
  be built. With \<^verbatim>\<open>max_iterations = 0\<close> the condition of the \<^verbatim>\<open>while\<close> loop is false at once:
  \<^verbatim>\<open>process\<close> returns the iteration marker, appends an assistant turn and ends in state
  \<^verbatim>\<open>Done\<close>. The same happens, with an empty answer, when the state callback calls
  \<^verbatim>\<open>Agent::stop\<close>. And an exception of a tool's \<^verbatim>\<open>is_available\<close> leaves \<^verbatim>\<open>build_prompt\<close> before the
  engines are looked at.
\<close>

theorem C9_loop_not_entered_counterexample:
  "process (bare_agent 0) ''hi'' [] idle_world
     = (Inr ([CHR 0x0A] @ ''[Reached maximum iterations]''),
        (bare_agent 0)
          \<lparr>history := [user_msg ''hi'' [],
                       assistant_msg ([CHR 0x0A] @ ''[Reached maximum iterations]'')],
           state := Done\<rparr>,
        idle_world)
   \<and> process ((bare_agent 50)\<lparr>state_callback := Some stop_on_state\<rparr>) ''hi'' [] idle_world
     = (Inr [],
        (bare_agent 50)
          \<lparr>history := [user_msg ''hi'' [], assistant_msg []], state := Done,
           state_callback := Some stop_on_state\<rparr>,
        stop idle_world)
   \<and> process ((bare_agent 50)\<lparr>tools := [(''thrower'', unchecked_tool)]\<rparr>) ''hi'' [] idle_world
     = (Inl (StdException ''no display''),
        (bare_agent 50)
          \<lparr>history := [user_msg ''hi'' []], state := Thinking,
           tools := [(''thrower'', unchecked_tool)]\<rparr>,
        idle_world)"
  by (simp add: process_def react_loop_def react_iterate.simps set_state_def bare_agent_def
      idle_world_def stop_on_state_def stop_def build_prompt_def format_tools_prompt_def
      in_name_order_def unchecked_tool_def)

text \<open>
  C9 (amended). If neither engine is loaded, \<^verbatim>\<open>max_iterations\<close> is at least one, the state
  callback (if one is set) returns without asking to stop, and the tools' availability
  checks let the prompt be built, then \<^verbatim>\<open>process\<close> ends with the exception
  \<^verbatim>\<open>"No model loaded"\<close>; the history has grown by the user turn and by nothing else, and the
  state is \<^verbatim>\<open>Thinking\<close>.
\<close>

theorem C9_no_model_loaded:
  assumes "\<forall>v. vlm a = Some v \<longrightarrow> \<not> vlm_is_loaded v"
    and "\<forall>l. llm a = Some l \<longrightarrow> \<not> llm_is_loaded l"
    and "1 \<le> max_iterations (config a)"
    and "set_state Thinking ''Processing message...'' a (w\<lparr>stop_requested := False\<rparr>)
           = (Inr (), a1, w1)"
    and "\<not> stop_requested w1"
    and "format_tools_prompt (tools a) w1 = Inr catalog"
  shows "process a message imgs w
     = (Inl (StdException ''No model loaded''),
        a\<lparr>state := Thinking, history := history a @ [user_msg message imgs]\<rparr>, w1)"
proof -
  have a1: "a1 = a\<lparr>state := Thinking\<rparr>"
    using assms(4) by (rule set_state_agent)
  let ?a = "a1\<lparr>history := history a1 @ [user_msg message imgs]\<rparr>"
  obtain prompt where prompt: "build_prompt ?a (history ?a) w1 = Inr prompt"
    using assms(6) a1 by (simp add: build_prompt_def)
  have gen: "generate_response ?a prompt imgs w1 = (Inl (StdException ''No model loaded''), w1)"
    using assms(1,2) a1 by (auto simp: generate_response_def split: option.splits)
  have "0 < max_iterations (config ?a) \<and> \<not> stop_requested w1"
    using assms(3,5) a1 by simp
  then have "react_iterate ?a imgs 0 0 [] w1 = (Inl (StdException ''No model loaded''), ?a, w1)"
    using prompt gen by (subst react_iterate.simps) simp
  then show ?thesis
    using assms(4) a1 by (simp add: process_def react_loop_def)
qed

theorem C9_no_model_loaded_witness:
  "vlm (bare_agent 50) = None \<and> llm (bare_agent 50) = None
   \<and> 1 \<le> max_iterations (config (bare_agent 50))
   \<and> set_state Thinking ''Processing message...'' (bare_agent 50)
        (idle_world\<lparr>stop_requested := False\<rparr>)
      = (Inr (), (bare_agent 50)\<lparr>state := Thinking\<rparr>, idle_world)
   \<and> \<not> stop_requested idle_world
   \<and> (\<exists>catalog. format_tools_prompt (tools (bare_agent 50)) idle_world = Inr catalog)
   \<and> process (bare_agent 50) ''hi'' [] idle_world
     = (Inl (StdException ''No model loaded''),
        (bare_agent 50)\<lparr>state := Thinking, history := [user_msg ''hi'' []]\<rparr>, idle_world)"
proof -
  have v: "vlm (bare_agent 50) = None" and l: "llm (bare_agent 50) = None"
    and m: "1 \<le> max_iterations (config (bare_agent 50))"
    and h: "history (bare_agent 50) = []"
    by (simp_all add: bare_agent_def)
  have s: "set_state Thinking ''Processing message...'' (bare_agent 50)
        (idle_world\<lparr>stop_requested := False\<rparr>)
      = (Inr (), (bare_agent 50)\<lparr>state := Thinking\<rparr>, idle_world)"
    by (simp add: set_state_def bare_agent_def idle_world_def)
  have n: "\<not> stop_requested idle_world"
    by (simp add: idle_world_def)
  obtain catalog where c: "format_tools_prompt (tools (bare_agent 50)) idle_world = Inr catalog"
    by (simp add: format_tools_prompt_def in_name_order_def bare_agent_def)
  have "process (bare_agent 50) ''hi'' [] idle_world
     = (Inl (StdException ''No model loaded''),
        (bare_agent 50)\<lparr>state := Thinking,
          history := history (bare_agent 50) @ [user_msg ''hi'' []]\<rparr>, idle_world)"
    using C9_no_model_loaded [of "bare_agent 50" "idle_world" "(bare_agent 50)\<lparr>state := Thinking\<rparr>"
        idle_world catalog "''hi''" "[]"] v l m s n c
    by simp
  then show ?thesis
    using v l m s n c h by simp
qed

section \<open>The history of the agent\<close>

text \<open>
  C10: the history of the agent only grows, except by \<^verbatim>\<open>reset\<close>. However \<^verbatim>\<open>process\<close> ends,
  the old history is a prefix of the new one. When it returns, the new history is the old
  one, the user turn, one \<^verbatim>\<open>Tool\<close> turn for every iteration that made tool calls (the
  iterations the loop counted, less the last one when it carried the answer) and the
  assistant turn with the returned text: nothing is trimmed. \<^verbatim>\<open>add_message\<close> appends,
  the setters of the callbacks leave the history alone, and \<^verbatim>\<open>reset\<close> empties it.
\<close>

theorem C10_history_append_only:
  "(\<forall>r a' w'. process a message imgs w = (r, a', w') \<longrightarrow> prefix (history a) (history a'))
   \<and> (\<forall>response a' w'. process a message imgs w = (Inr response, a', w') \<longrightarrow>
        (\<exists>turns n final answered a1 w1 a2 w2.
           set_state Thinking ''Processing message...'' a (w\<lparr>stop_requested := False\<rparr>)
             = (Inr (), a1, w1)
           \<and> react_iterate (a1\<lparr>history := history a1 @ [user_msg message imgs]\<rparr>) imgs 0 0 [] w1
             = (Inr (n, final, answered), a2, w2)
           \<and> history a' = history a @ [user_msg message imgs] @ turns @ [assistant_msg response]
           \<and> list_all (\<lambda>t. role t = Tool) turns
           \<and> int (length turns) = n - (if answered then 1 else 0)))
   \<and> history (agent_add_message a m) = history a @ [m]
   \<and> (\<forall>r a' w'. reset a w = (r, a', w') \<longrightarrow> history a' = [])
   \<and> history (set_stream_callback a on_token) = history a
   \<and> history (set_tool_callback a on_tool) = history a
   \<and> history (set_state_callback a on_state) = history a"
proof (intro conjI allI impI)
  fix r a' w' assume "process a message imgs w = (r, a', w')"
  then show "prefix (history a) (history a')" by (rule process_prefix)
next
  fix response a' w' assume "process a message imgs w = (Inr response, a', w')"
  then show "\<exists>turns n final answered a1 w1 a2 w2.
           set_state Thinking ''Processing message...'' a (w\<lparr>stop_requested := False\<rparr>)
             = (Inr (), a1, w1)
           \<and> react_iterate (a1\<lparr>history := history a1 @ [user_msg message imgs]\<rparr>) imgs 0 0 [] w1
             = (Inr (n, final, answered), a2, w2)
           \<and> history a' = history a @ [user_msg message imgs] @ turns @ [assistant_msg response]
           \<and> list_all (\<lambda>t. role t = Tool) turns
           \<and> int (length turns) = n - (if answered then 1 else 0)"
    by (rule process_returns_history)
next
  fix r a' w' assume "reset a w = (r, a', w')"
  then show "history a' = []" by (rule reset_history)
qed (simp_all add: agent_add_message_def set_stream_callback_def set_tool_callback_def
    set_state_callback_def)


text \<open>The scenario of a listed directory: the first response asks for \<^verbatim>\<open>list_directory\<close>, which
  is registered and succeeds, and the second is the answer.\<close>

definition list_call :: ToolCall where
  "list_call = \<lparr>id_call = ''call_0'', name = ''list_directory'', arguments = [''path'' \<mapsto> ''.'']\<rparr>"

lemma parse_list_call:
  "parse_tool_calls_on 30000 tool_call_response = Inr [list_call]"
proof -
  have "parse_depth tool_call_response \<le> 30000"
    using parse_depth_le [of tool_call_response] by (simp add: tool_call_response_def)
  moreover have "parse_tool_calls tool_call_response = Inr [list_call]"
    by (simp add: parse_tool_calls_def regex_matches.simps tool_regex_def rx_match.simps
      tool_call_response_def list_call_def
      is_space_def word_char_def is_digit_def any_char_def sub_match_def arg_regex_def
      not_line_end_def trim_value_def erase_def find_first_not_of_def find_last_not_of_def
      trim_chars_def npos_def put_int_def decimal.simps digit_char_def)
  ultimately show ?thesis
    by (simp add: parse_within_stack)
qed

definition listing_tool :: "(nat \<times> nat) Tool" where
  "listing_tool =
     \<lparr>get_schema =
        \<lparr>schema_name = ''list_directory'', description = ''List directory contents'',
         parameters = [\<lparr>param_name = ''path'', param_type = ''string'',
                        param_description = ''Directory path'', required = True,
                        default_value = None\<rparr>]\<rparr>,
      execute = (\<lambda>args w.
        (Inr \<lparr>call_id = [], success = True, tool_output = ''a.txt'', error = None\<rparr>, w)),
      is_available = (\<lambda>w. Inr True)\<rparr>"

definition helpful_llm :: "(nat \<times> nat) LLMEngine" where
  "helpful_llm =
     \<lparr>llm_is_loaded = True,
      llm_generate = (\<lambda>prompt w.
        (Inr (if fst (outside w) = 0 then tool_call_response else ''All done.''),
         w\<lparr>outside := (Suc (fst (outside w)), snd (outside w))\<rparr>))\<rparr>"

definition helpful_agent :: "(nat \<times> nat) Agent" where
  "helpful_agent =
     \<lparr>config = \<lparr>max_iterations = 50, max_consecutive_errors = 3, system_prompt = []\<rparr>,
      vlm = None, llm = Some helpful_llm, tools = [(''list_directory'', listing_tool)],
      history = [], state = Idle,
      stream_callback = None, tool_callback = Some count_dispatch, state_callback = None\<rparr>"

definition listing_turn :: Message where
  "listing_turn =
     tool_result_msg ''tools'' []
       (format_tool_results
          [(list_call,
            \<lparr>call_id = ''call_0'', success = True, tool_output = ''a.txt'', error = None\<rparr>)])"

lemma helpful_run:
  "process helpful_agent ''list files'' [] fresh_world
     = (Inr ''All done.'',
        helpful_agent
          \<lparr>history := [user_msg ''list files'' [], listing_turn, assistant_msg ''All done.''],
           state := Done\<rparr>,
        fresh_world\<lparr>outside := (2, 1)\<rparr>)"
  by (simp add: process_def react_loop_def react_iterate.simps set_state_def helpful_agent_def
      fresh_world_def build_prompt_def format_tools_prompt_def in_name_order_def
      generate_response_def helpful_llm_def parse_list_call parse_plain_answer
      list_call_def registry_execute_def get_tool_def count_dispatch_def
      listing_tool_def listing_turn_def)

theorem C10_history_append_only_witness:
  "process helpful_agent ''list files'' [] fresh_world
     = (Inr ''All done.'',
        helpful_agent
          \<lparr>history := [user_msg ''list files'' [], listing_turn, assistant_msg ''All done.''],
           state := Done\<rparr>,
        fresh_world\<lparr>outside := (2, 1)\<rparr>)
   \<and> history helpful_agent = []
   \<and> prefix (history helpful_agent)
        [user_msg ''list files'' [], listing_turn, assistant_msg ''All done.'']
   \<and> (\<exists>turns. [user_msg ''list files'' [], listing_turn, assistant_msg ''All done.'']
         = history helpful_agent @ [user_msg ''list files'' []] @ turns
           @ [assistant_msg ''All done.'']
        \<and> list_all (\<lambda>t. role t = Tool) turns)
   \<and> reset (helpful_agent
          \<lparr>history := [user_msg ''list files'' [], listing_turn, assistant_msg ''All done.''],
           state := Done\<rparr>) (fresh_world\<lparr>outside := (2, 1)\<rparr>)
     = (Inr (), helpful_agent\<lparr>history := [], state := Idle\<rparr>, fresh_world\<lparr>outside := (2, 1)\<rparr>)
   \<and> history (helpful_agent\<lparr>history := [], state := Idle\<rparr>) = []"
proof -
  let ?after = "helpful_agent
          \<lparr>history := [user_msg ''list files'' [], listing_turn, assistant_msg ''All done.''],
           state := Done\<rparr>"
  let ?world = "fresh_world\<lparr>outside := (2, 1)\<rparr>"
  note run = helpful_run
  have empty: "history helpful_agent = []"
    by (simp add: helpful_agent_def)
  have cleared: "reset ?after ?world = (Inr (), helpful_agent\<lparr>history := [], state := Idle\<rparr>, ?world)"
    by (simp add: reset_def helpful_agent_def fresh_world_def)
  note grows = C10_history_append_only [where a = helpful_agent and message = "''list files''"
      and imgs = "[]" and w = fresh_world, THEN conjunct1, rule_format, OF run]
  note turns = C10_history_append_only [where a = helpful_agent and message = "''list files''"
      and imgs = "[]" and w = fresh_world, THEN conjunct2, THEN conjunct1, rule_format, OF run]
  note gone = C10_history_append_only [where a = ?after and w = ?world,
      THEN conjunct2, THEN conjunct2, THEN conjunct2, THEN conjunct1, rule_format, OF cleared]
  have p: "prefix (history helpful_agent)
        [user_msg ''list files'' [], listing_turn, assistant_msg ''All done.'']"
    using grows by simp
  obtain turns where t: "history ?after
      = history helpful_agent @ [user_msg ''list files'' []] @ turns @ [assistant_msg ''All done.'']"
    "list_all (\<lambda>t. role t = Tool) turns"
    using turns by blast
  have e: "\<exists>turns. [user_msg ''list files'' [], listing_turn, assistant_msg ''All done.'']
         = history helpful_agent @ [user_msg ''list files'' []] @ turns
           @ [assistant_msg ''All done.'']
        \<and> list_all (\<lambda>t. role t = Tool) turns"
    using t by (intro exI [of _ turns]) simp
  show ?thesis
    by (intro conjI) (rule run empty p e cleared gone)+
qed

end
